theory Spec2Isabelle
  imports Main "HOL-Library.Word"
begin

unbundle bit_operations_syntax

section \<open>Temporal context stack (temporal_tables.h, temporal_tables.c)\<close>

text \<open>
  \<^verbatim>\<open>SubTransactionId\<close> is the host's \<^verbatim>\<open>uint32\<close>, \<^verbatim>\<open>TimestampTz\<close> its
  \<^verbatim>\<open>int64\<close> count of microseconds (read with \<open>sint\<close>).
\<close>

type_synonym SubTransactionId = "32 word"
type_synonym TimestampTz = "64 word"

definition InvalidSubTransactionId :: SubTransactionId where
  "InvalidSubTransactionId = 0"

definition TopSubTransactionId :: SubTransactionId where
  "TopSubTransactionId = 1"

datatype SystemTimeMode = CurrentTransactionStartTimestamp | UserDefined

record TemporalContext =
  subid :: SubTransactionId
  system_time_mode :: SystemTimeMode
  system_time :: TimestampTz

text \<open>
  The stack \<^verbatim>\<open>temporal_contexts\<close> is a list whose head is \<^verbatim>\<open>linitial\<close>.
  \<^verbatim>\<open>_PG_init\<close> creates it with the zeroed root context.
\<close>

definition PG_init :: "TemporalContext list" where
  "PG_init =
     [\<lparr>subid = InvalidSubTransactionId,
       system_time_mode = CurrentTransactionStartTimestamp,
       system_time = 0\<rparr>]"

definition copy_temporal_context ::
  "TemporalContext \<Rightarrow> SubTransactionId \<Rightarrow> TemporalContext" where
  "copy_temporal_context src sid = src\<lparr>subid := sid\<rparr>"

text \<open>
  \<^verbatim>\<open>linitial\<close> of an empty list dereferences a null pointer; the model returns
  \<open>None\<close> there. A returned context pointer always designates the head of the
  returned stack, so a write through it replaces that head.
\<close>

definition push_temporal_context ::
  "SubTransactionId \<Rightarrow> TemporalContext list \<Rightarrow> (TemporalContext \<times> TemporalContext list) option" where
  "push_temporal_context sid stk =
     (case stk of
        [] \<Rightarrow> None
      | c # _ \<Rightarrow> (let ctx = copy_temporal_context c sid in Some (ctx, ctx # stk)))"

definition get_current_temporal_context ::
  "bool \<Rightarrow> SubTransactionId \<Rightarrow> TemporalContext list \<Rightarrow>
   (TemporalContext \<times> TemporalContext list) option" where
  "get_current_temporal_context will_modify cur_subid stk =
     (case stk of
        [] \<Rightarrow> None
      | ctx # _ \<Rightarrow>
          if \<not> will_modify then Some (ctx, stk)
          else if subid ctx = cur_subid then Some (ctx, stk)
          else push_temporal_context cur_subid stk)"

text \<open>\<^verbatim>\<open>set_system_time\<close>: the argument is \<open>None\<close> for SQL NULL.\<close>

definition set_system_time ::
  "TimestampTz option \<Rightarrow> SubTransactionId \<Rightarrow> TemporalContext list \<Rightarrow> TemporalContext list option" where
  "set_system_time arg cur_subid stk =
     (case get_current_temporal_context True cur_subid stk of
        None \<Rightarrow> None
      | Some (ctx, stk') \<Rightarrow>
          (case arg of
             None \<Rightarrow> Some (ctx\<lparr>system_time_mode := CurrentTransactionStartTimestamp\<rparr> # tl stk')
           | Some ts \<Rightarrow> Some (ctx\<lparr>system_time_mode := UserDefined, system_time := ts\<rparr> # tl stk')))"

text \<open>\<^verbatim>\<open>get_system_time\<close>, given the host's transaction start timestamp.\<close>

definition get_system_time ::
  "TimestampTz \<Rightarrow> SubTransactionId \<Rightarrow> TemporalContext list \<Rightarrow> TimestampTz option" where
  "get_system_time xact_start cur_subid stk =
     (case get_current_temporal_context False cur_subid stk of
        None \<Rightarrow> None
      | Some (ctx, _) \<Rightarrow>
          (case system_time_mode ctx of
             CurrentTransactionStartTimestamp \<Rightarrow> Some xact_start
           | UserDefined \<Rightarrow> Some (system_time ctx)))"

subsection \<open>The transaction callbacks\<close>

text \<open>The events of the host's \<^verbatim>\<open>XactEvent\<close> and \<^verbatim>\<open>SubXactEvent\<close>.\<close>

datatype XactEvent =
    XACT_EVENT_COMMIT
  | XACT_EVENT_PARALLEL_COMMIT
  | XACT_EVENT_ABORT
  | XACT_EVENT_PARALLEL_ABORT
  | XACT_EVENT_PREPARE
  | XACT_EVENT_PRE_COMMIT
  | XACT_EVENT_PARALLEL_PRE_COMMIT
  | XACT_EVENT_PRE_PREPARE

datatype SubXactEvent =
    SUBXACT_EVENT_START_SUB
  | SUBXACT_EVENT_COMMIT_SUB
  | SUBXACT_EVENT_ABORT_SUB
  | SUBXACT_EVENT_PRE_COMMIT_SUB

text \<open>
  \<^verbatim>\<open>temporal_tables_xact_callback\<close> returns the stack it leaves. The result is
  \<open>None\<close> where the source dereferences the head of an empty list or its
  \<^verbatim>\<open>Assert\<close> fails.
\<close>

definition temporal_tables_xact_callback ::
  "XactEvent \<Rightarrow> TemporalContext list \<Rightarrow> TemporalContext list option" where
  "temporal_tables_xact_callback event stk =
     (if event = XACT_EVENT_COMMIT \<or> event = XACT_EVENT_ABORT then
        (case stk of
           [] \<Rightarrow> None
         | ctx # rest \<Rightarrow>
             if subid ctx \<noteq> InvalidSubTransactionId then
               (if event = XACT_EVENT_COMMIT then
                  (case rest of
                     [] \<Rightarrow> None
                   | top_ctx # rest' \<Rightarrow>
                       if subid top_ctx = InvalidSubTransactionId
                       then Some (copy_temporal_context ctx InvalidSubTransactionId # rest')
                       else None)
                else Some rest)
             else Some stk)
      else Some stk)"

text \<open>
  \<^verbatim>\<open>temporal_tables_subxact_callback\<close>, with the value of
  \<^verbatim>\<open>GetCurrentSubTransactionId()\<close> as the argument \<open>cur_subid\<close>. \<^verbatim>\<open>lsecond\<close> of a
  list of one element is a null dereference.
\<close>

definition temporal_tables_subxact_callback ::
  "SubXactEvent \<Rightarrow> SubTransactionId \<Rightarrow> SubTransactionId \<Rightarrow> SubTransactionId \<Rightarrow>
   TemporalContext list \<Rightarrow> TemporalContext list option" where
  "temporal_tables_subxact_callback event mySubid parentSubid cur_subid stk =
     (if event = SUBXACT_EVENT_COMMIT_SUB \<or> event = SUBXACT_EVENT_ABORT_SUB then
        (case stk of
           [] \<Rightarrow> None
         | ctx # rest \<Rightarrow>
             if subid ctx = cur_subid then
               (if event = SUBXACT_EVENT_ABORT_SUB then Some rest
                else
                  (case rest of
                     [] \<Rightarrow> None
                   | parent_ctx # rest' \<Rightarrow>
                       if subid parent_ctx \<noteq> parentSubid
                       then Some (ctx\<lparr>subid := parentSubid\<rparr> # rest)
                       else Some (copy_temporal_context ctx parentSubid # rest')))
             else Some stk)
      else Some stk)"

section \<open>Host types used by the trigger (versioning.c)\<close>

type_synonym Oid = "32 word"
type_synonym TransactionId = "32 word"

definition TIMESTAMPTZOID :: Oid where "TIMESTAMPTZOID = 1184"
definition TYPTYPE_RANGE :: char where "TYPTYPE_RANGE = CHR ''r''"
definition SPI_ERROR_NOATTRIBUTE :: int where "SPI_ERROR_NOATTRIBUTE = - 9"
definition SPI_OK_CONNECT :: int where "SPI_OK_CONNECT = 1"
definition SPI_OK_FINISH :: int where "SPI_OK_FINISH = 2"
definition SPI_OK_INSERT :: int where "SPI_OK_INSERT = 7"

subsection \<open>Range bounds and serialized ranges\<close>

text \<open>
  The host's \<^verbatim>\<open>RangeBound\<close>. The field \<^verbatim>\<open>infinite\<close> is named \<open>infinite_bound\<close>
  here, since \<open>infinite\<close> is a constant of HOL.
\<close>

record RangeBound =
  val :: TimestampTz
  infinite_bound :: bool
  inclusive :: bool
  lower :: bool

text \<open>
  Modelled from the spec: the host's serialized range value \<^verbatim>\<open>RangeType\<close> is not
  under src/. A validity interval is empty, or has a lower and an upper bound, each
  unbounded or a timestamp with an inclusive flag.
\<close>

datatype SerializedBound = Unbounded | Bounded TimestampTz bool

datatype RangeType = EmptyRange | NonEmptyRange SerializedBound SerializedBound

fun deserialize_bound :: "bool \<Rightarrow> SerializedBound \<Rightarrow> RangeBound" where
  "deserialize_bound is_lower Unbounded =
     \<lparr>val = 0, infinite_bound = True, inclusive = False, lower = is_lower\<rparr>"
| "deserialize_bound is_lower (Bounded v inc) =
     \<lparr>val = v, infinite_bound = False, inclusive = inc, lower = is_lower\<rparr>"

text \<open>
  Modelled from the spec: the host's \<^verbatim>\<open>range_deserialize\<close> is not under src/. It
  yields the lower bound, the upper bound and the empty flag; the bounds of an empty
  range are zeroed.
\<close>

fun range_deserialize :: "RangeType \<Rightarrow> RangeBound \<times> RangeBound \<times> bool" where
  "range_deserialize EmptyRange =
     (\<lparr>val = 0, infinite_bound = False, inclusive = False, lower = True\<rparr>,
      \<lparr>val = 0, infinite_bound = False, inclusive = False, lower = False\<rparr>, True)"
| "range_deserialize (NonEmptyRange lb ub) =
     (deserialize_bound True lb, deserialize_bound False ub, False)"

text \<open>
  Modelled from the spec: the comparison of two timestamps with time zone is the
  host's; on the 64-bit integer representation it is the signed comparison.
\<close>

definition timestamp_cmp :: "TimestampTz \<Rightarrow> TimestampTz \<Rightarrow> int" where
  "timestamp_cmp a b = (if sint a < sint b then - 1 else if sint b < sint a then 1 else 0)"

text \<open>
  Modelled from the spec: the host's \<^verbatim>\<open>range_cmp_bounds\<close> is not under src/. It
  orders two bounds: an infinite lower bound is below and an infinite upper bound
  above everything; finite bounds are ordered by value, and at equal values by
  inclusivity, so that the exclusive upper bound \<open>t)\<close> is below the lower bounds
  \<open>[t\<close> and \<open>(t\<close>.
\<close>

definition range_cmp_bounds :: "RangeBound \<Rightarrow> RangeBound \<Rightarrow> int" where
  "range_cmp_bounds b1 b2 =
     (if infinite_bound b1 \<and> infinite_bound b2 then
        (if lower b1 = lower b2 then 0 else if lower b1 then - 1 else 1)
      else if infinite_bound b1 then (if lower b1 then - 1 else 1)
      else if infinite_bound b2 then (if lower b2 then 1 else - 1)
      else
        (let result = timestamp_cmp (val b1) (val b2) in
         if result = 0 then
           (if \<not> inclusive b1 \<and> \<not> inclusive b2 then
              (if lower b1 = lower b2 then 0 else if lower b1 then 1 else - 1)
            else if \<not> inclusive b1 then (if lower b1 then 1 else - 1)
            else if \<not> inclusive b2 then (if lower b2 then - 1 else 1)
            else 0)
         else result))"

text \<open>
  Modelled from the spec: the host's \<^verbatim>\<open>range_cmp_bound_values\<close>, used by
  \<^verbatim>\<open>make_range\<close>, compares the values of two bounds and ignores inclusivity.
\<close>

definition range_cmp_bound_values :: "RangeBound \<Rightarrow> RangeBound \<Rightarrow> int" where
  "range_cmp_bound_values b1 b2 =
     (if infinite_bound b1 \<and> infinite_bound b2 then
        (if lower b1 = lower b2 then 0 else if lower b1 then - 1 else 1)
      else if infinite_bound b1 then (if lower b1 then - 1 else 1)
      else if infinite_bound b2 then (if lower b2 then 1 else - 1)
      else timestamp_cmp (val b1) (val b2))"

definition serialize_bound :: "RangeBound \<Rightarrow> SerializedBound" where
  "serialize_bound b = (if infinite_bound b then Unbounded else Bounded (val b) (inclusive b))"

subsection \<open>Errors and warnings\<close>

text \<open>
  One constructor for each \<^verbatim>\<open>ereport(ERROR, ...)\<close> and \<^verbatim>\<open>elog(ERROR, ...)\<close> of
  versioning.c, carrying the arguments of the message, and one for each error of a
  host function the trigger calls. \<open>UndefinedBehaviour\<close> stands for a null or
  out-of-bounds dereference.
\<close>

datatype error =
    NotCalledByTriggerManager
  | MustBeFiredBeforeRow
  | MustBeFiredForInsertUpdateDelete
  | WrongNumberOfParameters int
  | ColumnDoesNotExist string string
  | PeriodColumnIsArray string string
  | CacheLookupFailedForType Oid
  | PeriodColumnNotRange string string Oid
  | PeriodColumnNotTstzRange string string Oid
  | ColumnTypeMismatch string string string string
  | HistoryLacksPeriodColumn string string
  | InvalidAdjustValue string
  | PeriodColumnNull string string
  | PeriodColumnInvalid string string
  | CannotSetValidPeriod string "TimestampTz option" TimestampTz
  | SPI_failed string int
  | RangeBoundsOutOfOrder
  | InvalidColumnNumber int
  | RelationDoesNotExist string
  | UndefinedBehaviour

datatype errcode =
    ERRCODE_E_R_I_E_TRIGGER_PROTOCOL_VIOLATED
  | ERRCODE_INVALID_PARAMETER_VALUE
  | ERRCODE_UNDEFINED_COLUMN
  | ERRCODE_DATATYPE_MISMATCH
  | ERRCODE_NULL_VALUE_NOT_ALLOWED
  | ERRCODE_DATA_EXCEPTION
  | ERRCODE_INTERNAL_ERROR
  | ERRCODE_UNDEFINED_TABLE

fun errcode_of :: "error \<Rightarrow> errcode option" where
  "errcode_of NotCalledByTriggerManager = Some ERRCODE_E_R_I_E_TRIGGER_PROTOCOL_VIOLATED"
| "errcode_of MustBeFiredBeforeRow = Some ERRCODE_E_R_I_E_TRIGGER_PROTOCOL_VIOLATED"
| "errcode_of MustBeFiredForInsertUpdateDelete = Some ERRCODE_E_R_I_E_TRIGGER_PROTOCOL_VIOLATED"
| "errcode_of (WrongNumberOfParameters _) = Some ERRCODE_INVALID_PARAMETER_VALUE"
| "errcode_of (ColumnDoesNotExist _ _) = Some ERRCODE_UNDEFINED_COLUMN"
| "errcode_of (PeriodColumnIsArray _ _) = Some ERRCODE_DATATYPE_MISMATCH"
| "errcode_of (CacheLookupFailedForType _) = Some ERRCODE_INTERNAL_ERROR"
| "errcode_of (PeriodColumnNotRange _ _ _) = Some ERRCODE_DATATYPE_MISMATCH"
| "errcode_of (PeriodColumnNotTstzRange _ _ _) = Some ERRCODE_DATATYPE_MISMATCH"
| "errcode_of (ColumnTypeMismatch _ _ _ _) = Some ERRCODE_DATATYPE_MISMATCH"
| "errcode_of (HistoryLacksPeriodColumn _ _) = Some ERRCODE_INTERNAL_ERROR"
| "errcode_of (InvalidAdjustValue _) = Some ERRCODE_INVALID_PARAMETER_VALUE"
| "errcode_of (PeriodColumnNull _ _) = Some ERRCODE_NULL_VALUE_NOT_ALLOWED"
| "errcode_of (PeriodColumnInvalid _ _) = Some ERRCODE_DATA_EXCEPTION"
| "errcode_of (CannotSetValidPeriod _ _ _) = Some ERRCODE_DATA_EXCEPTION"
| "errcode_of (SPI_failed _ _) = Some ERRCODE_INTERNAL_ERROR"
| "errcode_of RangeBoundsOutOfOrder = Some ERRCODE_DATA_EXCEPTION"
| "errcode_of (InvalidColumnNumber _) = Some ERRCODE_INTERNAL_ERROR"
| "errcode_of (RelationDoesNotExist _) = Some ERRCODE_UNDEFINED_TABLE"
| "errcode_of UndefinedBehaviour = None"



datatype warning = SystemPeriodAdjusted string

text \<open>
  Modelled from the spec: the host's \<^verbatim>\<open>make_range\<close> (with \<^verbatim>\<open>empty = false\<close>) is
  not under src/. It refuses a lower bound above the upper bound, and serializes as
  empty a range whose bounds have equal values unless both are inclusive. The range
  type of timestamps has no canonical form to apply.
\<close>

definition make_range :: "RangeBound \<Rightarrow> RangeBound \<Rightarrow> error + RangeType" where
  "make_range lower_b upper_b =
     (let cmp = range_cmp_bound_values lower_b upper_b in
      if cmp > 0 then Inl RangeBoundsOutOfOrder
      else if cmp = 0 \<and> \<not> (inclusive lower_b \<and> inclusive upper_b) then Inr EmptyRange
      else Inr (NonEmptyRange (serialize_bound lower_b) (serialize_bound upper_b)))"

subsection \<open>Tuples, tuple descriptors and relations\<close>

text \<open>
  A \<^verbatim>\<open>Datum\<close> of the period column is a serialized range; the values of the other
  columns are opaque. A tuple carries the transaction id that created it
  (\<^verbatim>\<open>HeapTupleHeaderGetXmin\<close>) and its attribute values, \<open>None\<close> for SQL NULL.
\<close>

datatype Datum = RangeDatum RangeType | OtherDatum string

definition RangeTypePGetDatum :: "RangeType \<Rightarrow> Datum" where
  "RangeTypePGetDatum r = RangeDatum r"

fun DatumGetRangeTypeP :: "Datum \<Rightarrow> RangeType option" where
  "DatumGetRangeTypeP (RangeDatum r) = Some r"
| "DatumGetRangeTypeP (OtherDatum _) = None"

record HeapTuple =
  t_xmin :: TransactionId
  t_values :: "Datum option list"

text \<open>
  An attribute of a tuple descriptor. \<^verbatim>\<open>attr->attnum\<close> is the position of the
  attribute in its descriptor, counted from 1, so the model computes it from the index.
\<close>

record FormData_pg_attribute =
  attname :: string
  atttypid :: Oid
  attndims :: int
  atttypmod :: int
  attisdropped :: bool

type_synonym TupleDesc = "FormData_pg_attribute list"

record Relation =
  rd_id :: Oid
  rd_nspname :: string
  rd_relname :: string
  rd_att :: TupleDesc

record Form_pg_type =
  typtype :: char
  rngsubtype :: Oid

record TypeCacheEntry =
  type_id :: Oid
  rngelemtype :: Oid

text \<open>
  Modelled from the spec: the host's \<^verbatim>\<open>SPI_fnumber\<close> is not under src/. It returns
  the number of the first attribute of that name that is not dropped, else the
  (negative) number of the system column of that name, else
  \<^verbatim>\<open>SPI_ERROR_NOATTRIBUTE\<close>.
\<close>

fun find_attribute :: "TupleDesc \<Rightarrow> string \<Rightarrow> int \<Rightarrow> int option" where
  "find_attribute [] fname res = None"
| "find_attribute (attr # rest) fname res =
     (if attname attr = fname \<and> \<not> attisdropped attr then Some (res + 1)
      else find_attribute rest fname (res + 1))"

definition SystemAttributeByName :: "string \<Rightarrow> int option" where
  "SystemAttributeByName fname =
     map_of [(''ctid'', - 1), (''xmin'', - 2), (''cmin'', - 3), (''xmax'', - 4),
             (''cmax'', - 5), (''tableoid'', - 6)] fname"

definition SPI_fnumber :: "TupleDesc \<Rightarrow> string \<Rightarrow> int" where
  "SPI_fnumber tupdesc' fname =
     (case find_attribute tupdesc' fname 0 of
        Some n \<Rightarrow> n
      | None \<Rightarrow>
          (case SystemAttributeByName fname of
             Some n \<Rightarrow> n
           | None \<Rightarrow> SPI_ERROR_NOATTRIBUTE))"

text \<open>
  Modelled from the spec: the host's attribute fetch is not under src/. An attribute
  beyond those stored in the tuple reads as NULL; \<^verbatim>\<open>SPI_getbinval\<close> reports NULL
  for a column number that is not a column of the descriptor. The values of system
  columns are not ranges.
\<close>

definition heap_getattr :: "HeapTuple \<Rightarrow> nat \<Rightarrow> Datum option" where
  "heap_getattr tuple n =
     (if 1 \<le> n \<and> n \<le> length (t_values tuple) then t_values tuple ! (n - 1) else None)"

definition SPI_getbinval :: "HeapTuple \<Rightarrow> TupleDesc \<Rightarrow> int \<Rightarrow> Datum option" where
  "SPI_getbinval tuple tupdesc' fnumber =
     (if fnumber > int (length tupdesc') \<or> fnumber = 0 \<or> fnumber \<le> - 7 then None
      else if fnumber < 0 then Some (OtherDatum ''system column'')
      else heap_getattr tuple (nat fnumber))"

definition SPI_gettypeid :: "TupleDesc \<Rightarrow> int \<Rightarrow> Oid" where
  "SPI_gettypeid tupdesc' fnumber = atttypid (tupdesc' ! nat (fnumber - 1))"

definition heap_deform_tuple :: "HeapTuple \<Rightarrow> TupleDesc \<Rightarrow> Datum option list" where
  "heap_deform_tuple tuple tupdesc' = map (heap_getattr tuple) [1 ..< Suc (length tupdesc')]"

text \<open>
  \<^verbatim>\<open>modify_tuple\<close>, in its form for PostgreSQL 10 and later: the host's
  \<^verbatim>\<open>heap_modify_tuple_by_cols\<close> refuses a column number outside the descriptor and
  forms a new tuple, not yet stored (its \<open>t_xmin\<close> is the invalid transaction id 0),
  that differs from the old one in that column alone.
\<close>

definition modify_tuple :: "Relation \<Rightarrow> HeapTuple \<Rightarrow> int \<Rightarrow> RangeType \<Rightarrow> error + HeapTuple" where
  "modify_tuple rel tuple period_attnum range' =
     (if period_attnum \<le> 0 \<or> period_attnum > int (length (rd_att rel))
      then Inl (InvalidColumnNumber period_attnum)
      else Inr \<lparr>t_xmin = 0,
                t_values = (heap_deform_tuple tuple (rd_att rel))
                             [nat (period_attnum - 1) := Some (RangeTypePGetDatum range')]\<rparr>)"

subsection \<open>The trigger call\<close>

type_synonym TriggerEvent = "32 word"

definition TRIGGER_EVENT_INSERT :: TriggerEvent where "TRIGGER_EVENT_INSERT = 0"
definition TRIGGER_EVENT_DELETE :: TriggerEvent where "TRIGGER_EVENT_DELETE = 1"
definition TRIGGER_EVENT_UPDATE :: TriggerEvent where "TRIGGER_EVENT_UPDATE = 2"
definition TRIGGER_EVENT_TRUNCATE :: TriggerEvent where "TRIGGER_EVENT_TRUNCATE = 3"
definition TRIGGER_EVENT_OPMASK :: TriggerEvent where "TRIGGER_EVENT_OPMASK = 3"
definition TRIGGER_EVENT_ROW :: TriggerEvent where "TRIGGER_EVENT_ROW = 4"
definition TRIGGER_EVENT_BEFORE :: TriggerEvent where "TRIGGER_EVENT_BEFORE = 8"
definition TRIGGER_EVENT_AFTER :: TriggerEvent where "TRIGGER_EVENT_AFTER = 0"
definition TRIGGER_EVENT_INSTEAD :: TriggerEvent where "TRIGGER_EVENT_INSTEAD = 16"
definition TRIGGER_EVENT_TIMINGMASK :: TriggerEvent where "TRIGGER_EVENT_TIMINGMASK = 24"

definition TRIGGER_FIRED_BY_INSERT :: "TriggerEvent \<Rightarrow> bool" where
  "TRIGGER_FIRED_BY_INSERT event = (event AND TRIGGER_EVENT_OPMASK = TRIGGER_EVENT_INSERT)"

definition TRIGGER_FIRED_BY_DELETE :: "TriggerEvent \<Rightarrow> bool" where
  "TRIGGER_FIRED_BY_DELETE event = (event AND TRIGGER_EVENT_OPMASK = TRIGGER_EVENT_DELETE)"

definition TRIGGER_FIRED_BY_UPDATE :: "TriggerEvent \<Rightarrow> bool" where
  "TRIGGER_FIRED_BY_UPDATE event = (event AND TRIGGER_EVENT_OPMASK = TRIGGER_EVENT_UPDATE)"

definition TRIGGER_FIRED_FOR_ROW :: "TriggerEvent \<Rightarrow> bool" where
  "TRIGGER_FIRED_FOR_ROW event = (event AND TRIGGER_EVENT_ROW \<noteq> 0)"

definition TRIGGER_FIRED_BEFORE :: "TriggerEvent \<Rightarrow> bool" where
  "TRIGGER_FIRED_BEFORE event = (event AND TRIGGER_EVENT_TIMINGMASK = TRIGGER_EVENT_BEFORE)"

text \<open>
  \<^verbatim>\<open>tgnargs\<close> is the length of \<^verbatim>\<open>tgargs\<close>. \<^verbatim>\<open>tg_newtuple\<close> is NULL (\<open>None\<close>) except
  for an update. \<^verbatim>\<open>CALLED_AS_TRIGGER\<close> holds when \<^verbatim>\<open>fcinfo->context\<close> is a
  \<^verbatim>\<open>TriggerData\<close>.
\<close>

record Trigger =
  tgargs :: "string list"

definition tgnargs :: "Trigger \<Rightarrow> int" where
  "tgnargs trigger = int (length (tgargs trigger))"

record TriggerData =
  tg_event :: TriggerEvent
  tg_relation :: Relation
  tg_trigtuple :: HeapTuple
  tg_newtuple :: "HeapTuple option"
  tg_trigger :: Trigger

record FunctionCallInfo =
  fcinfo_context :: "TriggerData option"

definition CALLED_AS_TRIGGER :: "FunctionCallInfo \<Rightarrow> bool" where
  "CALLED_AS_TRIGGER fcinfo = (fcinfo_context fcinfo \<noteq> None)"

subsection \<open>The host as seen by one trigger call, and the session state\<close>

text \<open>
  What the host answers during one call: the transaction manager, the configuration,
  the type catalog, the lookup of a relation by name, and the result codes of the SPI
  calls (\<open>SPI_prepare_ok\<close>: the plan is not NULL). The arithmetic on \<^verbatim>\<open>float8\<close> of
  a host that stores timestamps as floating-point seconds is a parameter, over an
  uninterpreted type \<open>'f\<close>.
\<close>

record 'f host =
  GetCurrentSubTransactionId :: SubTransactionId
  GetCurrentTransactionStartTimestamp :: TimestampTz
  TransactionIdIsCurrentTransactionId :: "TransactionId \<Rightarrow> bool"
  GetConfigOption_integer_datetimes :: string
  SearchSysCache_TYPEOID :: "Oid \<Rightarrow> Form_pg_type option"
  heap_openrv :: "string \<Rightarrow> Relation option"
  SPI_connect :: int
  SPI_prepare_ok :: bool
  SPI_result :: int
  SPI_keepplan :: int
  SPI_freeplan :: int
  SPI_execp :: int
  SPI_finish :: int
  float8_of_timestamp :: "TimestampTz \<Rightarrow> 'f"
  timestamp_of_float8 :: "'f \<Rightarrow> TimestampTz"
  float8_plus_1E_06 :: "'f \<Rightarrow> 'f"
  float8_ne :: "'f \<Rightarrow> 'f \<Rightarrow> bool"
  nextafter_DBL_MAX :: "'f \<Rightarrow> 'f"

text \<open>
  The prepared statement
  \<^verbatim>\<open>INSERT INTO nsp.rel (attnames) VALUES ($1, ...)\<close> with its argument types.
\<close>

record SPIPlan =
  plan_nspname :: string
  plan_relname :: string
  plan_attnames :: "string list"
  plan_argtypes :: "Oid list"

text \<open>\<^verbatim>\<open>VersioningHashEntry\<close> without its key; a NULL pointer is \<open>None\<close>.\<close>

record VersioningHashEntry =
  history_relid :: Oid
  tupdesc :: "TupleDesc option"
  history_tupdesc :: "TupleDesc option"
  natts :: int
  attnums :: "int list option"
  insert_history_plan :: "SPIPlan option"

text \<open>
  The static variables of the two files, and what the calls leave in the host: the
  rows inserted through the prepared statement (statement and parameter values) and
  the warnings reported.
\<close>

record session =
  temporal_contexts :: "TemporalContext list"
  integer_datetimes :: bool
  integer_datetimes_set :: bool
  versioning_cache :: "Oid \<Rightarrow> VersioningHashEntry option"
  history_rows :: "(SPIPlan \<times> Datum option list) list"
  warnings :: "warning list"

section \<open>The versioning trigger (versioning.c)\<close>

subsection \<open>Arguments and type checks\<close>

text \<open>
  Modelled from the spec: the host's \<^verbatim>\<open>pg_strcasecmp\<close> is not under src/. It
  compares two strings after folding the ASCII letters A-Z to lower case; only its
  test against 0 is used, so the sign of a non-zero result is not modelled.
\<close>

definition pg_ascii_tolower :: "char \<Rightarrow> char" where
  "pg_ascii_tolower ch =
     (case map_of (zip ''ABCDEFGHIJKLMNOPQRSTUVWXYZ'' ''abcdefghijklmnopqrstuvwxyz'') ch of
        Some l \<Rightarrow> l
      | None \<Rightarrow> ch)"

definition pg_strcasecmp :: "string \<Rightarrow> string \<Rightarrow> int" where
  "pg_strcasecmp s1 s2 = (if map pg_ascii_tolower s1 = map pg_ascii_tolower s2 then 0 else 1)"

definition parse_adjust_argument :: "string \<Rightarrow> error + bool" where
  "parse_adjust_argument arg =
     (if pg_strcasecmp arg ''true'' = 0 then Inr True
      else if pg_strcasecmp arg ''false'' = 0 then Inr False
      else Inl (InvalidAdjustValue arg))"

definition get_period_typcache ::
  "'f host \<Rightarrow> FormData_pg_attribute \<Rightarrow> Relation \<Rightarrow> error + TypeCacheEntry" where
  "get_period_typcache env attr relation =
     (let typoid = atttypid attr in
      case SearchSysCache_TYPEOID env typoid of
        None \<Rightarrow> Inl (CacheLookupFailedForType typoid)
      | Some type' \<Rightarrow>
          if typtype type' \<noteq> TYPTYPE_RANGE
          then Inl (PeriodColumnNotRange (attname attr) (rd_relname relation) typoid)
          else
            (let typcache = \<lparr>type_id = typoid, rngelemtype = rngsubtype type'\<rparr> in
             if rngelemtype typcache \<noteq> TIMESTAMPTZOID
             then Inl (PeriodColumnNotTstzRange (attname attr) (rd_relname relation)
                         (rngelemtype typcache))
             else Inr typcache))"

definition check_attr_type ::
  "FormData_pg_attribute \<Rightarrow> FormData_pg_attribute \<Rightarrow> Relation \<Rightarrow> Relation \<Rightarrow> error + unit" where
  "check_attr_type attr history_attr relation history_relation =
     (if atttypid attr \<noteq> atttypid history_attr \<or>
         attndims attr \<noteq> attndims history_attr \<or>
         atttypmod attr \<noteq> atttypmod history_attr
      then Inl (ColumnTypeMismatch (attname attr) (rd_relname relation)
                  (attname history_attr) (rd_relname history_relation))
      else Inr ())"

subsection \<open>The cache of the versioned relations\<close>

text \<open>
  The loop of \<^verbatim>\<open>fill_versioning_hash_entry\<close> over the attributes from index \<open>i\<close>
  on. The accumulator holds, for each common attribute found so far, its number in the
  versioned relation, its number in the history relation and its name; writing a
  further entry into the arrays of \<open>attnums_size\<close> elements when they are full is
  out of bounds.
\<close>

fun common_attributes ::
  "Relation \<Rightarrow> Relation \<Rightarrow> int \<Rightarrow> FormData_pg_attribute list \<Rightarrow> int \<Rightarrow>
   (int \<times> int \<times> string) list \<Rightarrow> error + (int \<times> int \<times> string) list" where
  "common_attributes relation history_relation attnums_size [] i acc = Inr acc"
| "common_attributes relation history_relation attnums_size (attr # rest) i acc =
     (if attisdropped attr
      then common_attributes relation history_relation attnums_size rest (i + 1) acc
      else
        (let history_attnum = SPI_fnumber (rd_att history_relation) (attname attr) in
         if history_attnum < 0
         then common_attributes relation history_relation attnums_size rest (i + 1) acc
         else
           (case check_attr_type attr (rd_att history_relation ! nat (history_attnum - 1))
                   relation history_relation of
              Inl e \<Rightarrow> Inl e
            | Inr _ \<Rightarrow>
                if int (length acc) \<ge> attnums_size then Inl UndefinedBehaviour
                else common_attributes relation history_relation attnums_size rest (i + 1)
                       (acc @ [(i + 1, history_attnum, attname attr)]))))"

text \<open>
  \<^verbatim>\<open>fill_versioning_hash_entry\<close> returns the filled entry. Every error is raised
  before the first assignment to the entry, so an error leaves the entry as it was.
\<close>

definition fill_versioning_hash_entry ::
  "'f host \<Rightarrow> VersioningHashEntry \<Rightarrow> Relation \<Rightarrow> Relation \<Rightarrow> TupleDesc \<Rightarrow> string \<Rightarrow>
   error + VersioningHashEntry" where
  "fill_versioning_hash_entry env hash_entry relation history_relation tupdesc' period_attname =
     (let history_tupdesc' = rd_att history_relation in
      if SPI_fnumber history_tupdesc' period_attname < 0
      then Inl (HistoryLacksPeriodColumn (rd_relname history_relation) period_attname)
      else
        (let attnums_size = min (int (length tupdesc')) (int (length history_tupdesc')) in
         case common_attributes relation history_relation attnums_size tupdesc' 0 [] of
           Inl e \<Rightarrow> Inl e
         | Inr common \<Rightarrow>
             (let natts' = int (length common) in
              if natts' \<noteq> 0 then
                (let argtypes = map (\<lambda>(_, history_attnum, _).
                                       SPI_gettypeid history_tupdesc' history_attnum) common;
                     plan = \<lparr>plan_nspname = rd_nspname history_relation,
                             plan_relname = rd_relname history_relation,
                             plan_attnames = map (\<lambda>(_, _, name). name) common,
                             plan_argtypes = argtypes\<rparr>
                 in
                 if \<not> SPI_prepare_ok env then Inl (SPI_failed ''SPI_prepare'' (SPI_result env))
                 else if SPI_keepplan env \<noteq> 0
                 then Inl (SPI_failed ''SPI_keepplan'' (SPI_keepplan env))
                 else Inr (hash_entry
                             \<lparr>insert_history_plan := Some plan,
                              history_relid := rd_id history_relation,
                              tupdesc := Some tupdesc',
                              history_tupdesc := Some history_tupdesc',
                              attnums := Some (map fst common),
                              natts := natts'\<rparr>))
              else Inr (hash_entry\<lparr>natts := natts'\<rparr>))))"

text \<open>
  \<^verbatim>\<open>lookup_versioning_hash_entry\<close>: the entry found, or a new zeroed entry with
  \<open>natts = -1\<close>, and the flag \<open>found\<close>.
\<close>

definition lookup_versioning_hash_entry ::
  "Oid \<Rightarrow> (Oid \<Rightarrow> VersioningHashEntry option) \<Rightarrow> VersioningHashEntry \<times> bool" where
  "lookup_versioning_hash_entry relid cache =
     (case cache relid of
        Some entry \<Rightarrow> (entry, True)
      | None \<Rightarrow>
          (\<lparr>history_relid = 0, tupdesc = None, history_tupdesc = None, natts = - 1,
            attnums = None, insert_history_plan = None\<rparr>, False))"

text \<open>
  The test of \<^verbatim>\<open>insert_history_row\<close> that the cached data is no longer valid, with
  the short-circuit evaluation of \<^verbatim>\<open>||\<close>. \<^verbatim>\<open>equalTupleDescs\<close> is equality of the
  descriptors; on a NULL cached descriptor it dereferences a null pointer (\<open>None\<close>).
\<close>

definition cached_data_invalid ::
  "VersioningHashEntry \<Rightarrow> Relation \<Rightarrow> Relation \<Rightarrow> bool option" where
  "cached_data_invalid hash_entry relation history_relation =
     (if natts hash_entry = - 1 then Some True
      else if rd_id history_relation \<noteq> history_relid hash_entry then Some True
      else
        (case tupdesc hash_entry of
           None \<Rightarrow> None
         | Some cached \<Rightarrow>
             if rd_att relation \<noteq> cached then Some True
             else
               (case history_tupdesc hash_entry of
                  None \<Rightarrow> None
                | Some history_cached \<Rightarrow> Some (rd_att history_relation \<noteq> history_cached))))"

text \<open>
  The block of \<^verbatim>\<open>insert_history_row\<close> that marks the entry invalid and frees its
  fields; the entry is returned also when \<^verbatim>\<open>SPI_freeplan\<close> fails.
\<close>

definition free_cached_data ::
  "'f host \<Rightarrow> VersioningHashEntry \<Rightarrow> error option \<times> VersioningHashEntry" where
  "free_cached_data env hash_entry =
     (let e1 = hash_entry\<lparr>natts := - 1, tupdesc := None, history_tupdesc := None,
                          attnums := None\<rparr>
      in
      if insert_history_plan e1 \<noteq> None then
        (if SPI_freeplan env \<noteq> 0 then (Some (SPI_failed ''SPI_freeplan'' (SPI_freeplan env)), e1)
         else (None, e1\<lparr>insert_history_plan := None\<rparr>))
      else (None, e1))"

definition store_hash_entry :: "Oid \<Rightarrow> VersioningHashEntry \<Rightarrow> session \<Rightarrow> session" where
  "store_hash_entry relid hash_entry s =
     s\<lparr>versioning_cache := (versioning_cache s)(relid \<mapsto> hash_entry)\<rparr>"

text \<open>
  The end of \<^verbatim>\<open>insert_history_row\<close>: execute the plan on the values of the common
  attributes of the tuple, close the history relation, \<^verbatim>\<open>SPI_finish\<close>.
\<close>

definition execute_history_plan ::
  "'f host \<Rightarrow> VersioningHashEntry \<Rightarrow> HeapTuple \<Rightarrow> TupleDesc \<Rightarrow> session \<Rightarrow>
   (error + unit) \<times> session" where
  "execute_history_plan env hash_entry tuple tupdesc' s =
     (let natts' = natts hash_entry in
      case
        (if natts' \<noteq> 0 then
           (case (attnums hash_entry, insert_history_plan hash_entry) of
              (Some attnums', Some plan) \<Rightarrow>
                if natts' < 0 \<or> int (length attnums') < natts' then Inl UndefinedBehaviour
                else
                  (let values = map (SPI_getbinval tuple tupdesc') (take (nat natts') attnums') in
                   if SPI_execp env \<noteq> SPI_OK_INSERT
                   then Inl (SPI_failed ''SPI_execp'' (SPI_execp env))
                   else Inr (s\<lparr>history_rows := history_rows s @ [(plan, values)]\<rparr>))
            | _ \<Rightarrow> Inl UndefinedBehaviour)
         else Inr s)
      of
        Inl e \<Rightarrow> (Inl e, s)
      | Inr s' \<Rightarrow>
          if SPI_finish env \<noteq> SPI_OK_FINISH
          then (Inl (SPI_failed ''SPI_finish'' (SPI_finish env)), s')
          else (Inr (), s'))"

definition insert_history_row ::
  "'f host \<Rightarrow> HeapTuple \<Rightarrow> Relation \<Rightarrow> string \<Rightarrow> string \<Rightarrow> session \<Rightarrow>
   (error + unit) \<times> session" where
  "insert_history_row env tuple relation history_relation_name period_attname s =
     (case heap_openrv env history_relation_name of
        None \<Rightarrow> (Inl (RelationDoesNotExist history_relation_name), s)
      | Some history_relation \<Rightarrow>
          (let (hash_entry, found) =
                 lookup_versioning_hash_entry (rd_id relation) (versioning_cache s);
               s0 = store_hash_entry (rd_id relation) hash_entry s;
               tupdesc' = rd_att relation
           in
           case (if found then cached_data_invalid hash_entry relation history_relation
                 else Some False) of
             None \<Rightarrow> (Inl UndefinedBehaviour, s0)
           | Some invalid \<Rightarrow>
               (let (freed, hash_entry1) =
                      (if invalid then free_cached_data env hash_entry else (None, hash_entry));
                    found1 = (found \<and> \<not> invalid);
                    s1 = store_hash_entry (rd_id relation) hash_entry1 s
                in
                case freed of
                  Some e \<Rightarrow> (Inl e, s1)
                | None \<Rightarrow>
                    if SPI_connect env \<noteq> SPI_OK_CONNECT
                    then (Inl (SPI_failed ''SPI_connect'' (SPI_connect env)), s1)
                    else
                      (case (if \<not> found1
                             then fill_versioning_hash_entry env hash_entry1 relation
                                    history_relation tupdesc' period_attname
                             else Inr hash_entry1) of
                         Inl e \<Rightarrow> (Inl e, s1)
                       | Inr hash_entry2 \<Rightarrow>
                           execute_history_plan env hash_entry2 tuple tupdesc'
                             (store_hash_entry (rd_id relation) hash_entry2 s)))))"

subsection \<open>The stored period and its adjustment\<close>

definition deserialize_system_period ::
  "HeapTuple \<Rightarrow> Relation \<Rightarrow> int \<Rightarrow> string \<Rightarrow> error + (RangeBound \<times> RangeBound)" where
  "deserialize_system_period tuple relation period_attnum period_attname =
     (case SPI_getbinval tuple (rd_att relation) period_attnum of
        None \<Rightarrow> Inl (PeriodColumnNull period_attname (rd_relname relation))
      | Some datum \<Rightarrow>
          (case DatumGetRangeTypeP datum of
             None \<Rightarrow> Inl UndefinedBehaviour
           | Some system_period \<Rightarrow>
               (let (lower', upper', empty') = range_deserialize system_period in
                if empty' \<or> \<not> infinite_bound upper'
                then Inl (PeriodColumnInvalid period_attname (rd_relname relation))
                else Inr (lower', upper'))))"

definition lookup_integer_datetimes :: "'f host \<Rightarrow> session \<Rightarrow> session" where
  "lookup_integer_datetimes env s =
     s\<lparr>integer_datetimes := (GetConfigOption_integer_datetimes env = ''on''),
       integer_datetimes_set := True\<rparr>"

text \<open>
  \<^verbatim>\<open>next_timestamp\<close>. The addition on \<^verbatim>\<open>int64\<close> wraps around (the host is
  compiled with \<^verbatim>\<open>-fwrapv\<close>).
\<close>

definition next_timestamp :: "'f host \<Rightarrow> TimestampTz \<Rightarrow> session \<Rightarrow> TimestampTz \<times> session" where
  "next_timestamp env timestamp s =
     (let s' = (if \<not> integer_datetimes_set s then lookup_integer_datetimes env s else s) in
      if integer_datetimes s' then (timestamp + 1, s')
      else
        (let ts = float8_of_timestamp env timestamp;
             next = float8_plus_1E_06 env ts
         in
         if float8_ne env next ts then (timestamp_of_float8 env next, s')
         else (timestamp_of_float8 env (nextafter_DBL_MAX env ts), s')))"

text \<open>
  \<^verbatim>\<open>adjust_system_period\<close> returns the upper bound, adjusted or not.
\<close>

definition adjust_system_period ::
  "'f host \<Rightarrow> RangeBound \<Rightarrow> RangeBound \<Rightarrow> string \<Rightarrow> Relation \<Rightarrow> session \<Rightarrow>
   (error + RangeBound) \<times> session" where
  "adjust_system_period env lower' upper' adjust_argument relation s =
     (if range_cmp_bounds lower' upper' \<ge> 0 then
        (case parse_adjust_argument adjust_argument of
           Inl e \<Rightarrow> (Inl e, s)
         | Inr adjust \<Rightarrow>
             if \<not> adjust
             then (Inl (CannotSetValidPeriod (rd_relname relation)
                          (if infinite_bound lower' then None else Some (val lower'))
                          (val upper')), s)
             else
               (let s1 = s\<lparr>warnings := warnings s @ [SystemPeriodAdjusted (rd_relname relation)]\<rparr>;
                    (next_ts, s2) = next_timestamp env (val lower') s1
                in (Inr (upper'\<lparr>val := next_ts\<rparr>), s2)))
      else (Inr upper', s))"

definition modified_in_current_transaction :: "'f host \<Rightarrow> HeapTuple \<Rightarrow> bool" where
  "modified_in_current_transaction env tuple =
     (let oldxmin = t_xmin tuple in TransactionIdIsCurrentTransactionId env oldxmin)"

subsection \<open>Insert, update, delete\<close>

text \<open>
  The three functions return the tuple pointer handed back to the trigger manager
  (\<open>None\<close> for NULL) and the session. The value of an infinite upper bound is not
  initialised in the source and never read; it is 0 here.
\<close>

definition versioning_insert ::
  "'f host \<Rightarrow> TriggerData \<Rightarrow> TypeCacheEntry \<Rightarrow> int \<Rightarrow> session \<Rightarrow>
   (error + HeapTuple option) \<times> session" where
  "versioning_insert env trigdata typcache period_attnum s =
     (case get_system_time (GetCurrentTransactionStartTimestamp env)
             (GetCurrentSubTransactionId env) (temporal_contexts s) of
        None \<Rightarrow> (Inl UndefinedBehaviour, s)
      | Some now \<Rightarrow>
          (let lower' = \<lparr>val = now, infinite_bound = False, inclusive = True, lower = True\<rparr>;
               upper' = \<lparr>val = 0, infinite_bound = True, inclusive = False, lower = False\<rparr>
           in
           case make_range lower' upper' of
             Inl e \<Rightarrow> (Inl e, s)
           | Inr range' \<Rightarrow>
               (case modify_tuple (tg_relation trigdata) (tg_trigtuple trigdata)
                       period_attnum range' of
                  Inl e \<Rightarrow> (Inl e, s)
                | Inr t \<Rightarrow> (Inr (Some t), s))))"

text \<open>
  The part that \<^verbatim>\<open>versioning_update\<close> and \<^verbatim>\<open>versioning_delete\<close> have in common,
  from \<^verbatim>\<open>deserialize_system_period\<close> to \<^verbatim>\<open>insert_history_row\<close>; it returns the
  bounds of the period of the history row.
\<close>

definition archive_old_row ::
  "'f host \<Rightarrow> HeapTuple \<Rightarrow> Relation \<Rightarrow> int \<Rightarrow> string \<Rightarrow> string \<Rightarrow> string \<Rightarrow> session \<Rightarrow>
   (error + (RangeBound \<times> RangeBound)) \<times> session" where
  "archive_old_row env tuple relation period_attnum period_attname
     history_relation_argument adjust_argument s =
     (case deserialize_system_period tuple relation period_attnum period_attname of
        Inl e \<Rightarrow> (Inl e, s)
      | Inr (lower', upper0) \<Rightarrow>
          (case get_system_time (GetCurrentTransactionStartTimestamp env)
                  (GetCurrentSubTransactionId env) (temporal_contexts s) of
             None \<Rightarrow> (Inl UndefinedBehaviour, s)
           | Some now \<Rightarrow>
               (let upper1 = upper0\<lparr>val := now, infinite_bound := False, inclusive := False\<rparr> in
                case adjust_system_period env lower' upper1 adjust_argument relation s of
                  (Inl e, s1) \<Rightarrow> (Inl e, s1)
                | (Inr upper', s1) \<Rightarrow>
                    (case make_range lower' upper' of
                       Inl e \<Rightarrow> (Inl e, s1)
                     | Inr range' \<Rightarrow>
                         (case modify_tuple relation tuple period_attnum range' of
                            Inl e \<Rightarrow> (Inl e, s1)
                          | Inr history_tuple \<Rightarrow>
                              (case insert_history_row env history_tuple relation
                                      history_relation_argument period_attname s1 of
                                 (Inl e, s2) \<Rightarrow> (Inl e, s2)
                               | (Inr _, s2) \<Rightarrow> (Inr (lower', upper'), s2)))))))"

definition versioning_update ::
  "'f host \<Rightarrow> TriggerData \<Rightarrow> TypeCacheEntry \<Rightarrow> int \<Rightarrow> string \<Rightarrow> string \<Rightarrow> string \<Rightarrow>
   session \<Rightarrow> (error + HeapTuple option) \<times> session" where
  "versioning_update env trigdata typcache period_attnum period_attname
     history_relation_argument adjust_argument s =
     (let tuple = tg_trigtuple trigdata in
      if modified_in_current_transaction env tuple then (Inr (tg_newtuple trigdata), s)
      else
        (let relation = tg_relation trigdata in
         case archive_old_row env tuple relation period_attnum period_attname
                history_relation_argument adjust_argument s of
           (Inl e, s2) \<Rightarrow> (Inl e, s2)
         | (Inr (lower0, upper0), s2) \<Rightarrow>
             (let lower' = lower0\<lparr>val := val upper0, infinite_bound := False, inclusive := True\<rparr>;
                  upper' = upper0\<lparr>infinite_bound := True, inclusive := False\<rparr>
              in
              case make_range lower' upper' of
                Inl e \<Rightarrow> (Inl e, s2)
              | Inr range' \<Rightarrow>
                  (case tg_newtuple trigdata of
                     None \<Rightarrow> (Inl UndefinedBehaviour, s2)
                   | Some newtuple \<Rightarrow>
                       (case modify_tuple relation newtuple period_attnum range' of
                          Inl e \<Rightarrow> (Inl e, s2)
                        | Inr t \<Rightarrow> (Inr (Some t), s2))))))"

definition versioning_delete ::
  "'f host \<Rightarrow> TriggerData \<Rightarrow> TypeCacheEntry \<Rightarrow> int \<Rightarrow> string \<Rightarrow> string \<Rightarrow> string \<Rightarrow>
   session \<Rightarrow> (error + HeapTuple option) \<times> session" where
  "versioning_delete env trigdata typcache period_attnum period_attname
     history_relation_argument adjust_argument s =
     (let tuple = tg_trigtuple trigdata in
      if modified_in_current_transaction env tuple then (Inr (Some tuple), s)
      else
        (let relation = tg_relation trigdata in
         case archive_old_row env tuple relation period_attnum period_attname
                history_relation_argument adjust_argument s of
           (Inl e, s2) \<Rightarrow> (Inl e, s2)
         | (Inr _, s2) \<Rightarrow> (Inr (Some tuple), s2)))"

subsection \<open>The trigger function\<close>

definition versioning ::
  "'f host \<Rightarrow> FunctionCallInfo \<Rightarrow> session \<Rightarrow> (error + HeapTuple option) \<times> session" where
  "versioning env fcinfo s =
     (case fcinfo_context fcinfo of
        None \<Rightarrow> (Inl NotCalledByTriggerManager, s)
      | Some trigdata \<Rightarrow>
          if \<not> TRIGGER_FIRED_BEFORE (tg_event trigdata) \<or>
             \<not> TRIGGER_FIRED_FOR_ROW (tg_event trigdata)
          then (Inl MustBeFiredBeforeRow, s)
          else if \<not> TRIGGER_FIRED_BY_INSERT (tg_event trigdata) \<and>
                  \<not> TRIGGER_FIRED_BY_UPDATE (tg_event trigdata) \<and>
                  \<not> TRIGGER_FIRED_BY_DELETE (tg_event trigdata)
          then (Inl MustBeFiredForInsertUpdateDelete, s)
          else
            (let trigger = tg_trigger trigdata in
             if tgnargs trigger \<noteq> 3 then (Inl (WrongNumberOfParameters (tgnargs trigger)), s)
             else
               (let args = tgargs trigger;
                    relation = tg_relation trigdata;
                    tupdesc' = rd_att relation;
                    period_attname = args ! 0;
                    period_attnum = SPI_fnumber tupdesc' period_attname
                in
                if period_attnum = SPI_ERROR_NOATTRIBUTE
                then (Inl (ColumnDoesNotExist period_attname (rd_relname relation)), s)
                else if period_attnum - 1 < 0 \<or> period_attnum - 1 \<ge> int (length tupdesc')
                then (Inl UndefinedBehaviour, s)
                else
                  (let period_attr = tupdesc' ! nat (period_attnum - 1) in
                   if attisdropped period_attr
                   then (Inl (ColumnDoesNotExist period_attname (rd_relname relation)), s)
                   else if attndims period_attr \<noteq> 0
                   then (Inl (PeriodColumnIsArray period_attname (rd_relname relation)), s)
                   else
                     (case get_period_typcache env period_attr relation of
                        Inl e \<Rightarrow> (Inl e, s)
                      | Inr typcache \<Rightarrow>
                          if TRIGGER_FIRED_BY_INSERT (tg_event trigdata)
                          then versioning_insert env trigdata typcache period_attnum s
                          else if TRIGGER_FIRED_BY_UPDATE (tg_event trigdata)
                          then versioning_update env trigdata typcache period_attnum
                                 period_attname (args ! 1) (args ! 2) s
                          else versioning_delete env trigdata typcache period_attnum
                                 period_attname (args ! 1) (args ! 2) s)))))"

section \<open>A concrete installation\<close>

text \<open>
  The relation \<open>r (id, data, valid_time)\<close> and its history relation \<open>r_hist\<close> with
  the same columns, a host in which a transaction \<open>xid\<close> started at \<open>now\<close> is
  running and everything succeeds, and the state of a session that has just loaded
  the library.
\<close>

definition example_R :: Relation where
  "example_R =
     \<lparr>rd_id = 16384, rd_nspname = ''public'', rd_relname = ''r'',
      rd_att =
        [\<lparr>attname = ''id'', atttypid = 23, attndims = 0, atttypmod = - 1, attisdropped = False\<rparr>,
         \<lparr>attname = ''data'', atttypid = 25, attndims = 0, atttypmod = - 1, attisdropped = False\<rparr>,
         \<lparr>attname = ''valid_time'', atttypid = 3910, attndims = 0, atttypmod = - 1,
          attisdropped = False\<rparr>]\<rparr>"

definition example_R_hist :: Relation where
  "example_R_hist = example_R\<lparr>rd_id := 16390, rd_relname := ''r_hist''\<rparr>"

definition example_host :: "TimestampTz \<Rightarrow> TransactionId \<Rightarrow> unit host" where
  "example_host now xid =
     \<lparr>GetCurrentSubTransactionId = 1,
      GetCurrentTransactionStartTimestamp = now,
      TransactionIdIsCurrentTransactionId = (\<lambda>x. x = xid),
      GetConfigOption_integer_datetimes = ''on'',
      SearchSysCache_TYPEOID =
        (\<lambda>t. if t = 3910 then Some \<lparr>typtype = CHR ''r'', rngsubtype = 1184\<rparr> else None),
      heap_openrv = (\<lambda>n. if n = ''r_hist'' then Some example_R_hist else None),
      SPI_connect = 1, SPI_prepare_ok = True, SPI_result = 0, SPI_keepplan = 0,
      SPI_freeplan = 0, SPI_execp = 7, SPI_finish = 2,
      float8_of_timestamp = (\<lambda>_. ()), timestamp_of_float8 = (\<lambda>_. 0),
      float8_plus_1E_06 = (\<lambda>_. ()), float8_ne = (\<lambda>_ _. False),
      nextafter_DBL_MAX = (\<lambda>_. ())\<rparr>"

definition initial_session :: session where
  "initial_session =
     \<lparr>temporal_contexts = PG_init, integer_datetimes = False, integer_datetimes_set = False,
      versioning_cache = (\<lambda>_. None), history_rows = [], warnings = []\<rparr>"

text \<open>The largest timestamp, which the host prints as \<open>infinity\<close>.\<close>

definition INT64_MAX :: TimestampTz where
  "INT64_MAX = 0x7FFFFFFFFFFFFFFF"

definition example_row :: "TransactionId \<Rightarrow> string \<Rightarrow> RangeType option \<Rightarrow> HeapTuple" where
  "example_row xmin data period =
     \<lparr>t_xmin = xmin,
      t_values = [Some (OtherDatum ''1''), Some (OtherDatum data), map_option RangeDatum period]\<rparr>"

definition example_trigdata ::
  "TriggerEvent \<Rightarrow> HeapTuple \<Rightarrow> HeapTuple option \<Rightarrow> string \<Rightarrow> TriggerData" where
  "example_trigdata event trigtuple newtuple adjust =
     \<lparr>tg_event = event, tg_relation = example_R, tg_trigtuple = trigtuple,
      tg_newtuple = newtuple,
      tg_trigger = \<lparr>tgargs = [''valid_time'', ''r_hist'', adjust]\<rparr>\<rparr>"

definition example_call ::
  "TriggerEvent \<Rightarrow> HeapTuple \<Rightarrow> HeapTuple option \<Rightarrow> string \<Rightarrow> FunctionCallInfo" where
  "example_call event trigtuple newtuple adjust =
     \<lparr>fcinfo_context = Some (example_trigdata event trigtuple newtuple adjust)\<rparr>"

definition example_typcache :: TypeCacheEntry where
  "example_typcache = \<lparr>type_id = 3910, rngelemtype = 1184\<rparr>"

definition example_plan :: SPIPlan where
  "example_plan =
     \<lparr>plan_nspname = ''public'', plan_relname = ''r_hist'',
      plan_attnames = [''id'', ''data'', ''valid_time''], plan_argtypes = [23, 25, 3910]\<rparr>"

section \<open>Reference definitions for the metadata cache\<close>

text \<open>
  The pairing of columns in the words of the specification: every column of the
  versioned relation that is not dropped and exists by name in the history relation,
  with its number (counted from \<open>i + 1\<close>), the number of its history counterpart and
  its name. The loop \<open>common_attributes\<close> of the source is compared with it below.
\<close>

fun spec_common_columns :: "TupleDesc \<Rightarrow> TupleDesc \<Rightarrow> int \<Rightarrow> (int \<times> int \<times> string) list" where
  "spec_common_columns history_td [] i = []"
| "spec_common_columns history_td (attr # rest) i =
     (if \<not> attisdropped attr \<and> 0 \<le> SPI_fnumber history_td (attname attr)
      then (i + 1, SPI_fnumber history_td (attname attr), attname attr)
             # spec_common_columns history_td rest (i + 1)
      else spec_common_columns history_td rest (i + 1))"

text \<open>
  The invariant of a cache entry, in the words of the specification: an entry is
  marked invalid, or it is fully populated from the two schema snapshots it holds (or
  holds none, when there was no common column).
\<close>

definition entry_consistent :: "VersioningHashEntry \<Rightarrow> bool" where
  "entry_consistent e =
     (natts e = - 1 \<or>
      (case (tupdesc e, history_tupdesc e) of
         (Some td, Some htd) \<Rightarrow>
           (let common = spec_common_columns htd td 0 in
            common \<noteq> [] \<and> natts e = int (length common) \<and>
            attnums e = Some (map fst common) \<and>
            (case insert_history_plan e of
               Some plan \<Rightarrow>
                 plan_attnames plan = map (\<lambda>(_, _, name). name) common \<and>
                 plan_argtypes plan = map (\<lambda>(_, h, _). SPI_gettypeid htd h) common
             | None \<Rightarrow> False))
       | (None, None) \<Rightarrow> natts e = 0
       | _ \<Rightarrow> False))"

definition cache_consistent :: "session \<Rightarrow> bool" where
  "cache_consistent s =
     (\<forall>relid e. versioning_cache s relid = Some e \<longrightarrow> entry_consistent e)"

text \<open>
  The entry that a rebuild from the live schemas puts in place of the invalid entry
  \<open>e1\<close>, and the entry with which a rebuild starts: a new zeroed entry, or the
  cached one after its fields were freed (with the error of \<^verbatim>\<open>SPI_freeplan\<close>, if
  any).
\<close>

definition rebuilt_entry :: "VersioningHashEntry \<Rightarrow> Relation \<Rightarrow> Relation \<Rightarrow> VersioningHashEntry" where
  "rebuilt_entry e1 rel hrel =
     (let common = spec_common_columns (rd_att hrel) (rd_att rel) 0 in
      if common = [] then e1\<lparr>natts := 0\<rparr>
      else e1\<lparr>insert_history_plan :=
                 Some \<lparr>plan_nspname = rd_nspname hrel, plan_relname = rd_relname hrel,
                       plan_attnames = map (\<lambda>(_, _, name). name) common,
                       plan_argtypes = map (\<lambda>(_, h, _). SPI_gettypeid (rd_att hrel) h) common\<rparr>,
               history_relid := rd_id hrel,
               tupdesc := Some (rd_att rel),
               history_tupdesc := Some (rd_att hrel),
               attnums := Some (map fst common),
               natts := int (length common)\<rparr>)"

definition entry_before_rebuild ::
  "'f host \<Rightarrow> VersioningHashEntry option \<Rightarrow> error option \<times> VersioningHashEntry" where
  "entry_before_rebuild env cached =
     (case cached of
        None \<Rightarrow> (None, fst (lookup_versioning_hash_entry 0 (\<lambda>_. None)))
      | Some e \<Rightarrow> free_cached_data env e)"

text \<open>The cache entry of \<open>r\<close> once it has been built.\<close>

definition example_entry :: VersioningHashEntry where
  "example_entry =
     \<lparr>history_relid = 16390, tupdesc = Some (rd_att example_R),
      history_tupdesc = Some (rd_att example_R_hist), natts = 3, attnums = Some [1, 2, 3],
      insert_history_plan = Some example_plan\<rparr>"

section \<open>The row operations of the host\<close>

text \<open>
  Modelled from the spec: the row-interception protocol of the host is not under
  src/. The trigger is invoked once for each inserted, updated or deleted row, before
  the operation is applied, with the old and the proposed new row image and the three
  configuration strings; it returns the row image to store, or the old row image to
  let a delete proceed, or a fatal error that aborts the operation. A NULL result
  skips the operation. A stored row carries the id \<open>xid\<close> of the transaction that
  stored it. The table is the list of its live rows; an update and a delete address
  a row by its index.
\<close>

record database =
  db_session :: session
  live_rows :: "HeapTuple list"

definition before_row_trigger ::
  "TriggerEvent \<Rightarrow> Relation \<Rightarrow> string list \<Rightarrow> HeapTuple \<Rightarrow> HeapTuple option \<Rightarrow> FunctionCallInfo" where
  "before_row_trigger operation rel args trigtuple newtuple =
     \<lparr>fcinfo_context =
        Some \<lparr>tg_event = TRIGGER_EVENT_BEFORE OR TRIGGER_EVENT_ROW OR operation,
              tg_relation = rel, tg_trigtuple = trigtuple, tg_newtuple = newtuple,
              tg_trigger = \<lparr>tgargs = args\<rparr>\<rparr>\<rparr>"

definition ExecInsert ::
  "'f host \<Rightarrow> Relation \<Rightarrow> string list \<Rightarrow> TransactionId \<Rightarrow> HeapTuple \<Rightarrow> database \<Rightarrow>
   error + database" where
  "ExecInsert env rel args xid tuple db =
     (case versioning env (before_row_trigger TRIGGER_EVENT_INSERT rel args tuple None)
             (db_session db) of
        (Inl e, s') \<Rightarrow> Inl e
      | (Inr None, s') \<Rightarrow> Inr (db\<lparr>db_session := s'\<rparr>)
      | (Inr (Some t), s') \<Rightarrow>
          Inr \<lparr>db_session = s', live_rows = live_rows db @ [t\<lparr>t_xmin := xid\<rparr>]\<rparr>)"

definition ExecUpdate ::
  "'f host \<Rightarrow> Relation \<Rightarrow> string list \<Rightarrow> TransactionId \<Rightarrow> nat \<Rightarrow> HeapTuple \<Rightarrow> database \<Rightarrow>
   error + database" where
  "ExecUpdate env rel args xid i newtuple db =
     (if i < length (live_rows db) then
        (case versioning env
                (before_row_trigger TRIGGER_EVENT_UPDATE rel args (live_rows db ! i)
                   (Some newtuple))
                (db_session db) of
           (Inl e, s') \<Rightarrow> Inl e
         | (Inr None, s') \<Rightarrow> Inr (db\<lparr>db_session := s'\<rparr>)
         | (Inr (Some t), s') \<Rightarrow>
             Inr \<lparr>db_session = s', live_rows = (live_rows db)[i := t\<lparr>t_xmin := xid\<rparr>]\<rparr>)
      else Inr db)"

definition ExecDelete ::
  "'f host \<Rightarrow> Relation \<Rightarrow> string list \<Rightarrow> nat \<Rightarrow> database \<Rightarrow> error + database" where
  "ExecDelete env rel args i db =
     (if i < length (live_rows db) then
        (case versioning env
                (before_row_trigger TRIGGER_EVENT_DELETE rel args (live_rows db ! i) None)
                (db_session db) of
           (Inl e, s') \<Rightarrow> Inl e
         | (Inr None, s') \<Rightarrow> Inr (db\<lparr>db_session := s'\<rparr>)
         | (Inr (Some t), s') \<Rightarrow>
             Inr \<lparr>db_session = s', live_rows = take i (live_rows db) @ drop (Suc i) (live_rows db)\<rparr>)
      else Inr db)"

text \<open>
  The scenario of the specification on \<open>r\<close> and \<open>r_hist\<close>: insert \<open>(1, a)\<close> at
  \<open>t0\<close>, update it to \<open>(1, b)\<close> at \<open>t1\<close>, delete it at \<open>t2\<close>, in three
  transactions.
\<close>

definition example_scenario :: "TimestampTz \<Rightarrow> TimestampTz \<Rightarrow> TimestampTz \<Rightarrow> error + database" where
  "example_scenario t0 t1 t2 =
     (case ExecInsert (example_host t0 1) example_R [''valid_time'', ''r_hist'', ''true''] 1
             (example_row 0 ''a'' None) \<lparr>db_session = initial_session, live_rows = []\<rparr> of
        Inl e \<Rightarrow> Inl e
      | Inr db1 \<Rightarrow>
          (case ExecUpdate (example_host t1 2) example_R [''valid_time'', ''r_hist'', ''true''] 2
                  0 (example_row 0 ''b'' (Some (NonEmptyRange (Bounded t0 True) Unbounded))) db1 of
             Inl e \<Rightarrow> Inl e
           | Inr db2 \<Rightarrow>
               ExecDelete (example_host t2 3) example_R [''valid_time'', ''r_hist'', ''true''] 0
                 db2))"

section \<open>The transaction manager and the reference semantics of the temporal context\<close>

text \<open>
  Modelled from the spec: the transaction lifecycle notifications of the host are not
  under src/. The host keeps the identifiers of the active nesting levels, innermost
  first (none outside a transaction), and the counter from which it numbers the
  subtransactions of a transaction; it refuses to start a subtransaction when the
  counter would wrap around. It commits or aborts the innermost level only, so the
  subtransactions of a transaction end before the transaction does, and it runs the
  callbacks while the ending level is still the current one.
\<close>

record xact_state =
  active_levels :: "SubTransactionId list"
  currentSubTransactionId :: SubTransactionId

datatype event =
    BeginTransaction
  | CommitTransaction
  | AbortTransaction
  | BeginSubTransaction
  | CommitSubTransaction
  | AbortSubTransaction
  | SetSystemTime "TimestampTz option"

definition initial_xact_state :: xact_state where
  "initial_xact_state = \<lparr>active_levels = [], currentSubTransactionId = TopSubTransactionId\<rparr>"

fun host_step :: "event \<Rightarrow> xact_state \<Rightarrow> xact_state option" where
  "host_step BeginTransaction h =
     (if active_levels h = []
      then Some \<lparr>active_levels = [TopSubTransactionId],
                 currentSubTransactionId = TopSubTransactionId\<rparr>
      else None)"
| "host_step BeginSubTransaction h =
     (if active_levels h \<noteq> [] \<and> currentSubTransactionId h + 1 \<noteq> InvalidSubTransactionId
      then Some \<lparr>active_levels = (currentSubTransactionId h + 1) # active_levels h,
                 currentSubTransactionId = currentSubTransactionId h + 1\<rparr>
      else None)"
| "host_step CommitSubTransaction h =
     (case active_levels h of
        s # p # rest \<Rightarrow> Some (h\<lparr>active_levels := p # rest\<rparr>)
      | _ \<Rightarrow> None)"
| "host_step AbortSubTransaction h =
     (case active_levels h of
        s # p # rest \<Rightarrow> Some (h\<lparr>active_levels := p # rest\<rparr>)
      | _ \<Rightarrow> None)"
| "host_step CommitTransaction h =
     (case active_levels h of
        [s] \<Rightarrow> Some (h\<lparr>active_levels := []\<rparr>)
      | _ \<Rightarrow> None)"
| "host_step AbortTransaction h =
     (case active_levels h of
        [s] \<Rightarrow> Some (h\<lparr>active_levels := []\<rparr>)
      | _ \<Rightarrow> None)"
| "host_step (SetSystemTime v) h = (if active_levels h \<noteq> [] then Some h else None)"

text \<open>
  What the library does on an event that the host accepts: the callback it has
  registered, or \<^verbatim>\<open>set_system_time\<close>, on the stack of contexts.
\<close>

fun code_step :: "event \<Rightarrow> xact_state \<Rightarrow> TemporalContext list \<Rightarrow> TemporalContext list option" where
  "code_step BeginTransaction h stk = Some stk"
| "code_step BeginSubTransaction h stk =
     temporal_tables_subxact_callback SUBXACT_EVENT_START_SUB
       (currentSubTransactionId h + 1) (hd (active_levels h)) (currentSubTransactionId h + 1) stk"
| "code_step CommitSubTransaction h stk =
     temporal_tables_subxact_callback SUBXACT_EVENT_COMMIT_SUB
       (hd (active_levels h)) (hd (tl (active_levels h))) (hd (active_levels h)) stk"
| "code_step AbortSubTransaction h stk =
     temporal_tables_subxact_callback SUBXACT_EVENT_ABORT_SUB
       (hd (active_levels h)) (hd (tl (active_levels h))) (hd (active_levels h)) stk"
| "code_step CommitTransaction h stk = temporal_tables_xact_callback XACT_EVENT_COMMIT stk"
| "code_step AbortTransaction h stk = temporal_tables_xact_callback XACT_EVENT_ABORT stk"
| "code_step (SetSystemTime v) h stk = set_system_time v (hd (active_levels h)) stk"

text \<open>
  The reference semantics, in the words of the specification. The log holds the
  explicit-time sets that have not been aborted, the most recent first, each with the
  nesting level it now belongs to: the level that made it, then the parent of each
  level that committed since, and at last the session root
  (\<open>InvalidSubTransactionId\<close>) when the transaction committed. A set with no value
  asks for the transaction start time. The context visible to a reader is the most
  recent set of the log, or the transaction start time if there is none.
\<close>

type_synonym set_log = "(SubTransactionId \<times> TimestampTz option) list"

definition relabel_level ::
  "SubTransactionId \<Rightarrow> SubTransactionId \<Rightarrow> SubTransactionId \<times> TimestampTz option \<Rightarrow>
   SubTransactionId \<times> TimestampTz option" where
  "relabel_level s p e = (if fst e = s then (p, snd e) else e)"

fun spec_step :: "event \<Rightarrow> xact_state \<Rightarrow> set_log \<Rightarrow> set_log" where
  "spec_step BeginTransaction h log = log"
| "spec_step BeginSubTransaction h log = log"
| "spec_step CommitSubTransaction h log =
     map (relabel_level (hd (active_levels h)) (hd (tl (active_levels h)))) log"
| "spec_step AbortSubTransaction h log = filter (\<lambda>e. fst e \<noteq> hd (active_levels h)) log"
| "spec_step CommitTransaction h log =
     map (relabel_level (hd (active_levels h)) InvalidSubTransactionId) log"
| "spec_step AbortTransaction h log = filter (\<lambda>e. fst e \<noteq> hd (active_levels h)) log"
| "spec_step (SetSystemTime v) h log = (hd (active_levels h), v) # log"

definition spec_visible :: "set_log \<Rightarrow> TimestampTz option" where
  "spec_visible log = (case log of [] \<Rightarrow> None | e # _ \<Rightarrow> snd e)"

text \<open>What a context says: an explicit time, or \<open>None\<close> for the transaction start time.\<close>

definition context_view :: "TemporalContext \<Rightarrow> TimestampTz option" where
  "context_view ctx =
     (case system_time_mode ctx of
        CurrentTransactionStartTimestamp \<Rightarrow> None
      | UserDefined \<Rightarrow> Some (system_time ctx))"

text \<open>
  A run of events from a state of the host, the stack and the log: it stops as
  \<open>Rejected\<close> when the host does not accept an event, and as \<open>Crashed\<close> when the
  library dereferences a null pointer or fails its assertion.
\<close>

datatype outcome = Rejected | Crashed | Running "xact_state \<times> TemporalContext list \<times> set_log"

fun run :: "event list \<Rightarrow> xact_state \<times> TemporalContext list \<times> set_log \<Rightarrow> outcome" where
  "run [] st = Running st"
| "run (ev # evs) (h, stk, log) =
     (case host_step ev h of
        None \<Rightarrow> Rejected
      | Some h' \<Rightarrow>
          (case code_step ev h stk of
             None \<Rightarrow> Crashed
           | Some stk' \<Rightarrow> run evs (h', stk', spec_step ev h log)))"

text \<open>The invariant that ties the stack to the log, used in the proof below.\<close>

definition stack_inv ::
  "SubTransactionId list \<Rightarrow> TemporalContext list \<Rightarrow> set_log \<Rightarrow> bool" where
  "stack_inv active stk log =
     (sorted_wrt (>) active \<and> 0 \<notin> set active \<and>
      sorted_wrt (>) (map subid stk) \<and> 0 \<in> subid ` set stk \<and>
      subid ` set stk \<subseteq> insert 0 (set active) \<and>
      fst ` set log \<subseteq> subid ` set stk \<and>
      sorted_wrt (\<ge>) (map fst log) \<and>
      (\<forall>c \<in> set stk. context_view c = spec_visible (filter (\<lambda>e. fst e \<le> subid c) log)))"

text \<open>
  The invariant of a state of a run: the stack and the log are tied as above, and
  the host has numbered no active level above its counter.
\<close>

definition state_inv :: "xact_state \<times> TemporalContext list \<times> set_log \<Rightarrow> bool" where
  "state_inv st =
     (case st of (h, stk, log) \<Rightarrow>
        stack_inv (active_levels h) stk log \<and>
        (\<forall>a \<in> set (active_levels h). a \<le> currentSubTransactionId h))"


section \<open>Reference definitions for the trigger call\<close>

text \<open>
  The test that \<^verbatim>\<open>adjust_system_period\<close> makes when \<^verbatim>\<open>versioning_update\<close> or
  \<^verbatim>\<open>versioning_delete\<close> archives the old row of the call: the stored period of the
  row can be read, and the closing bound, the system time, is not above its lower
  bound.
\<close>

definition closing_bound_conflict :: "'f host \<Rightarrow> TriggerData \<Rightarrow> int \<Rightarrow> string \<Rightarrow> session \<Rightarrow> bool" where
  "closing_bound_conflict env td n pname s =
     (case deserialize_system_period (tg_trigtuple td) (tg_relation td) n pname of
        Inl _ \<Rightarrow> False
      | Inr (lb, ub0) \<Rightarrow>
          (case get_system_time (GetCurrentTransactionStartTimestamp env)
                  (GetCurrentSubTransactionId env) (temporal_contexts s) of
             None \<Rightarrow> False
           | Some now \<Rightarrow>
               0 \<le> range_cmp_bounds lb
                      (ub0\<lparr>val := now, infinite_bound := False, inclusive := False\<rparr>)))"


section \<open>Reference definitions for floating-point timestamps\<close>

text \<open>
  Modelled from the spec: the arithmetic of the host on \<^verbatim>\<open>float8\<close> is not under
  src/. What the specification says of it at a floating-point value \<open>x\<close>, for the
  order \<open>float8_lt\<close> of the floating-point values: one microsecond added to \<open>x\<close> gives a
  value that is numerically indistinguishable from \<open>x\<close> or is above \<open>x\<close>, and the
  fallback \<^verbatim>\<open>nextafter(x, DBL_MAX)\<close> is a representable value above \<open>x\<close>. On such
  a host a timestamp is a \<^verbatim>\<open>float8\<close>, so casting one of these two values to a
  timestamp and back gives the value again.
\<close>

definition float8_successor_spec :: "'f host \<Rightarrow> ('f \<Rightarrow> 'f \<Rightarrow> bool) \<Rightarrow> 'f \<Rightarrow> bool" where
  "float8_successor_spec env float8_lt x =
     ((float8_ne env (float8_plus_1E_06 env x) x \<longrightarrow> float8_lt x (float8_plus_1E_06 env x)) \<and>
      float8_lt x (nextafter_DBL_MAX env x) \<and>
      float8_of_timestamp env (timestamp_of_float8 env (float8_plus_1E_06 env x))
        = float8_plus_1E_06 env x \<and>
      float8_of_timestamp env (timestamp_of_float8 env (nextafter_DBL_MAX env x))
        = nextafter_DBL_MAX env x)"

text \<open>
  A host for the examples that stores timestamps as floating-point numbers with a
  significand of 53 bits, here counted in microseconds and restricted to whole
  numbers: below \<open>2^53\<close> every whole number is representable and the representable
  numbers are then 2, 4, 8, ... apart. A sum is rounded to the nearest representable
  number, to the one with the even significand when two are equally near.
\<close>

fun float8_spacing :: "nat \<Rightarrow> nat" where
  "float8_spacing n = (if n < 9007199254740992 then 1 else 2 * float8_spacing (n div 2))"

declare float8_spacing.simps [simp del]

definition float8_round :: "int \<Rightarrow> int" where
  "float8_round k =
     (let u = int (float8_spacing (nat \<bar>k\<bar>)); q = k div u; r = k mod u in
      if 2 * r < u then q * u
      else if u < 2 * r then (q + 1) * u
      else if even q then q * u else (q + 1) * u)"

definition float8_next_above :: "int \<Rightarrow> int" where
  "float8_next_above x =
     (if 0 \<le> x then x + int (float8_spacing (nat x))
      else x + int (float8_spacing (nat (- x - 1))))"

definition example_float_host :: "TimestampTz \<Rightarrow> TransactionId \<Rightarrow> int host" where
  "example_float_host now xid =
     \<lparr>GetCurrentSubTransactionId = 1,
      GetCurrentTransactionStartTimestamp = now,
      TransactionIdIsCurrentTransactionId = (\<lambda>x. x = xid),
      GetConfigOption_integer_datetimes = ''off'',
      SearchSysCache_TYPEOID =
        (\<lambda>t. if t = 3910 then Some \<lparr>typtype = CHR ''r'', rngsubtype = 1184\<rparr> else None),
      heap_openrv = (\<lambda>n. if n = ''r_hist'' then Some example_R_hist else None),
      SPI_connect = 1, SPI_prepare_ok = True, SPI_result = 0, SPI_keepplan = 0,
      SPI_freeplan = 0, SPI_execp = 7, SPI_finish = 2,
      float8_of_timestamp = sint, timestamp_of_float8 = word_of_int,
      float8_plus_1E_06 = (\<lambda>x. float8_round (x + 1)), float8_ne = (\<lambda>x y. x \<noteq> y),
      nextafter_DBL_MAX = float8_next_above\<rparr>"


section \<open>Properties of the temporal context stack\<close>

text \<open>
  Claim C7. A read-only request returns the top of the stack and leaves the stack as
  it is. A request for write returns the top itself when its \<open>subid\<close> is the active
  nesting level, and otherwise pushes and returns a copy of the top (same mode and
  time) tagged with the active level. \<^verbatim>\<open>set_system_time\<close> writes through such a
  handle: a timestamp sets mode \<open>UserDefined\<close> with that time, NULL sets mode
  \<open>CurrentTransactionStartTimestamp\<close>; the contexts below the handle are untouched.
\<close>

theorem C7_get_current_and_set:
  "get_current_temporal_context False cur (c # rest) = Some (c, c # rest)
   \<and> get_current_temporal_context True cur (c # rest)
       = (if subid c = cur then Some (c, c # rest)
          else Some (c\<lparr>subid := cur\<rparr>, c\<lparr>subid := cur\<rparr> # c # rest))
   \<and> set_system_time (Some ts) cur (c # rest)
       = Some (\<lparr>subid = cur, system_time_mode = UserDefined, system_time = ts\<rparr>
               # (if subid c = cur then rest else c # rest))
   \<and> set_system_time None cur (c # rest)
       = Some (\<lparr>subid = cur, system_time_mode = CurrentTransactionStartTimestamp,
                system_time = system_time c\<rparr>
               # (if subid c = cur then rest else c # rest))"
  by (simp add: get_current_temporal_context_def push_temporal_context_def
        copy_temporal_context_def set_system_time_def Let_def)

theorem C7_witness:
  "set_system_time (Some 42) 2 PG_init
     = Some [\<lparr>subid = 2, system_time_mode = UserDefined, system_time = 42\<rparr>,
             \<lparr>subid = 0, system_time_mode = CurrentTransactionStartTimestamp, system_time = 0\<rparr>]"
  using C7_get_current_and_set
    [of 2 "\<lparr>subid = 0, system_time_mode = CurrentTransactionStartTimestamp, system_time = 0\<rparr>" "[]" 42]
  by (simp add: PG_init_def InvalidSubTransactionId_def)

section \<open>Properties of the versioning trigger\<close>

text \<open>
  Claim C8. Let \<open>stored\<close> be the value of the period column of the old row (\<open>None\<close>
  for NULL). Reading it fails exactly when it is NULL, the empty range, or a range
  with a finite upper bound; otherwise it yields the two bounds of the range.
\<close>

theorem C8_deserialize_system_period:
  assumes "SPI_getbinval tuple (rd_att relation) period_attnum = map_option RangeDatum stored"
  shows "deserialize_system_period tuple relation period_attnum period_attname =
           (case stored of
              None \<Rightarrow> Inl (PeriodColumnNull period_attname (rd_relname relation))
            | Some EmptyRange \<Rightarrow> Inl (PeriodColumnInvalid period_attname (rd_relname relation))
            | Some (NonEmptyRange lb (Bounded v inc)) \<Rightarrow>
                Inl (PeriodColumnInvalid period_attname (rd_relname relation))
            | Some (NonEmptyRange lb Unbounded) \<Rightarrow>
                Inr (deserialize_bound True lb, deserialize_bound False Unbounded))
         \<and> ((\<exists>e. deserialize_system_period tuple relation period_attnum period_attname = Inl e)
              \<longleftrightarrow> (stored = None \<or> stored = Some EmptyRange
                   \<or> (\<exists>lb v inc. stored = Some (NonEmptyRange lb (Bounded v inc)))))"
  using assms
  by (auto simp: deserialize_system_period_def split: option.splits RangeType.splits SerializedBound.splits)

theorem C8_witness:
  "deserialize_system_period
     \<lparr>t_xmin = 7, t_values = [Some (OtherDatum ''1''), Some (OtherDatum ''a''),
        Some (RangeDatum (NonEmptyRange (Bounded 100 True) Unbounded))]\<rparr>
     example_R 3 ''valid_time''
   = Inr (\<lparr>val = 100, infinite_bound = False, inclusive = True, lower = True\<rparr>,
          \<lparr>val = 0, infinite_bound = True, inclusive = False, lower = False\<rparr>)"
  using C8_deserialize_system_period
    [of "\<lparr>t_xmin = 7, t_values = [Some (OtherDatum ''1''), Some (OtherDatum ''a''),
        Some (RangeDatum (NonEmptyRange (Bounded 100 True) Unbounded))]\<rparr>"
        example_R 3 "Some (NonEmptyRange (Bounded 100 True) Unbounded)" "''valid_time''"]
  by (simp add: SPI_getbinval_def heap_getattr_def example_R_def)

subsection \<open>The successor of a timestamp\<close>

lemma sint_succ:
  assumes "(t::64 word) \<noteq> 0x7FFFFFFFFFFFFFFF"
  shows "sint (t + 1) = sint t + 1"
proof -
  have "sint t \<noteq> 9223372036854775807"
  proof
    assume "sint t = 9223372036854775807"
    then have "sint t = sint (0x7FFFFFFFFFFFFFFF :: 64 word)" by simp
    then have "t = 0x7FFFFFFFFFFFFFFF" by (simp only: signed_word_eqI)
    with assms show False by simp
  qed
  moreover have "sint t < 2 ^ 63" using sint_lt [of t] by simp
  moreover have "- (2 ^ 63) \<le> sint t" using sint_ge [of t] by simp
  ultimately have r: "- (2 ^ 63) \<le> sint t + 1" "sint t + 1 < 2 ^ 63" by simp_all
  have "sint (t + 1) = signed_take_bit 63 (sint t + 1)"
    by (simp add: sint_word_ariths)
  also have "\<dots> = sint t + 1"
    using r by (simp add: signed_take_bit_int_eq_self)
  finally show ?thesis .
qed



text \<open>
  Claim C6, as stated, fails where no greater timestamp exists: on the integer
  representation the successor of the largest timestamp wraps around.
\<close>

theorem C6_counterexample:
  "\<not> sint INT64_MAX < sint (fst (next_timestamp (example_host 0 1) INT64_MAX initial_session))"
  by (simp add: next_timestamp_def lookup_integer_datetimes_def example_host_def
        initial_session_def INT64_MAX_def)

lemma next_timestamp_float8:
  assumes "\<not> integer_datetimes (snd (next_timestamp env t s))"
  shows "fst (next_timestamp env t s) =
          timestamp_of_float8 env
            (if float8_ne env (float8_plus_1E_06 env (float8_of_timestamp env t))
                  (float8_of_timestamp env t)
             then float8_plus_1E_06 env (float8_of_timestamp env t)
             else nextafter_DBL_MAX env (float8_of_timestamp env t))"
  using assms
  by (simp add: next_timestamp_def lookup_integer_datetimes_def Let_def split: if_splits)

lemma next_timestamp_float8_above:
  assumes f: "\<not> integer_datetimes (snd (next_timestamp env t s))"
      and h: "float8_successor_spec env float8_lt (float8_of_timestamp env t)"
  shows "float8_lt (float8_of_timestamp env t) (float8_of_timestamp env (fst (next_timestamp env t s)))"
proof (cases "float8_ne env (float8_plus_1E_06 env (float8_of_timestamp env t))
                (float8_of_timestamp env t)")
  case True
  with next_timestamp_float8 [OF f]
  have "fst (next_timestamp env t s)
          = timestamp_of_float8 env (float8_plus_1E_06 env (float8_of_timestamp env t))"
    by simp
  with h True show ?thesis by (simp add: float8_successor_spec_def)
next
  case False
  with next_timestamp_float8 [OF f]
  have "fst (next_timestamp env t s)
          = timestamp_of_float8 env (nextafter_DBL_MAX env (float8_of_timestamp env t))"
    by simp
  with h show ?thesis by (simp add: float8_successor_spec_def)
qed

text \<open>
  The floating-point host of the examples is as the specification describes it at
  every timestamp below \<open>2^62\<close> that is a floating-point number: a sum rounded to
  53 significant bits is not below a representable summand.
\<close>

lemma float8_spacing_pos: "0 < float8_spacing n"
  by (induction n rule: float8_spacing.induct) (subst float8_spacing.simps, simp)

lemma float8_spacing_small: "n < 9007199254740992 \<Longrightarrow> float8_spacing n = 1"
  by (subst float8_spacing.simps) simp

lemma float8_spacing_bound: "float8_spacing n * 4503599627370496 \<le> max n 4503599627370496"
proof (induction n rule: float8_spacing.induct)
  case (1 n)
  show ?case
  proof (cases "n < 9007199254740992")
    case True
    then show ?thesis by (simp add: float8_spacing_small)
  next
    case False
    with 1 have "float8_spacing (n div 2) * 4503599627370496 \<le> max (n div 2) 4503599627370496"
      by simp
    moreover from False have "4503599627370496 \<le> n div 2" by simp
    ultimately have "float8_spacing (n div 2) * 4503599627370496 \<le> n div 2" by simp
    moreover from False have "float8_spacing n = 2 * float8_spacing (n div 2)"
      by (subst float8_spacing.simps) simp
    ultimately show ?thesis by simp
  qed
qed

lemma float8_spacing_mono: "n \<le> m \<Longrightarrow> float8_spacing n dvd float8_spacing m"
proof (induction m arbitrary: n rule: float8_spacing.induct)
  case (1 m)
  show ?case
  proof (cases "m < 9007199254740992")
    case True
    with 1(2) show ?thesis by (simp add: float8_spacing_small)
  next
    case False
    then have m: "float8_spacing m = 2 * float8_spacing (m div 2)"
      by (subst float8_spacing.simps) simp
    show ?thesis
    proof (cases "n < 9007199254740992")
      case True
      then show ?thesis by (simp add: float8_spacing_small)
    next
      case nl: False
      then have n: "float8_spacing n = 2 * float8_spacing (n div 2)"
        by (subst float8_spacing.simps) simp
      from 1(2) have "n div 2 \<le> m div 2" by simp
      from 1(1) [OF False this] show ?thesis by (simp add: m n)
    qed
  qed
qed

lemma float8_spacing_step:
  "float8_spacing (Suc n) = float8_spacing n \<or> float8_spacing (Suc n) dvd Suc n"
proof (induction n rule: less_induct)
  case (less n)
  show ?case
  proof (cases "Suc n < 9007199254740992")
    case True
    then show ?thesis by (simp add: float8_spacing_small)
  next
    case False
    then have s: "float8_spacing (Suc n) = 2 * float8_spacing (Suc n div 2)"
      by (subst float8_spacing.simps) simp
    show ?thesis
    proof (cases "n < 9007199254740992")
      case True
      with False have "Suc n = 9007199254740992" by simp
      then have "float8_spacing (Suc n) = 2"
        by (simp add: float8_spacing.simps)
      with \<open>Suc n = 9007199254740992\<close> show ?thesis by simp
    next
      case nl: False
      then have n: "float8_spacing n = 2 * float8_spacing (n div 2)"
        by (subst float8_spacing.simps) simp
      show ?thesis
      proof (cases "even n")
        case True
        then have "Suc n div 2 = n div 2" by simp
        with s n show ?thesis by simp
      next
        case odd: False
        then have d: "Suc n div 2 = Suc (n div 2)" by simp
        from nl have "n div 2 < n" by simp
        from less [OF this] have
          "float8_spacing (Suc (n div 2)) = float8_spacing (n div 2) \<or>
           float8_spacing (Suc (n div 2)) dvd Suc (n div 2)" .
        then show ?thesis
        proof
          assume "float8_spacing (Suc (n div 2)) = float8_spacing (n div 2)"
          with s n d show ?thesis by simp
        next
          assume "float8_spacing (Suc (n div 2)) dvd Suc (n div 2)"
          then have "2 * float8_spacing (Suc (n div 2)) dvd 2 * Suc (n div 2)"
            by (rule mult_dvd_mono [OF dvd_refl])
          moreover from odd have "2 * Suc (n div 2) = Suc n" by presburger
          ultimately show ?thesis using s d by simp
        qed
      qed
    qed
  qed
qed

lemma float8_round_cases:
  "float8_round k = (k div int (float8_spacing (nat \<bar>k\<bar>))) * int (float8_spacing (nat \<bar>k\<bar>)) \<or>
   float8_round k = (k div int (float8_spacing (nat \<bar>k\<bar>)) + 1) * int (float8_spacing (nat \<bar>k\<bar>))"
  by (simp add: float8_round_def Let_def)

lemma float8_round_lower:
  "(k div int (float8_spacing (nat \<bar>k\<bar>))) * int (float8_spacing (nat \<bar>k\<bar>)) \<le> float8_round k"
proof -
  have "0 < int (float8_spacing (nat \<bar>k\<bar>))" by (simp add: float8_spacing_pos)
  with float8_round_cases [of k] show ?thesis
    by (auto simp: algebra_simps)
qed

lemma float8_round_upper:
  "float8_round k \<le> k + int (float8_spacing (nat \<bar>k\<bar>))"
proof -
  let ?u = "int (float8_spacing (nat \<bar>k\<bar>))"
  have u: "0 < ?u" by (simp add: float8_spacing_pos)
  have "k = (k div ?u) * ?u + k mod ?u" by simp
  moreover have "0 \<le> k mod ?u" using u by simp
  ultimately have "(k div ?u) * ?u \<le> k" by linarith
  with float8_round_cases [of k] u show ?thesis
    by (auto simp: algebra_simps)
qed

lemma float8_representable_dvd:
  assumes "float8_round x = x"
  shows "int (float8_spacing (nat \<bar>x\<bar>)) dvd x"
  using float8_round_cases [of x] assms
  by (metis dvd_triv_right)

lemma multiple_le_div:
  fixes x k u :: int
  assumes "0 < u" "u dvd x" "x \<le> k"
  shows "x \<le> (k div u) * u"
proof -
  from assms(2) obtain m where m: "x = u * m" by (auto simp: dvd_def)
  from assms(3) assms(1) have "x div u \<le> k div u" by (rule zdiv_mono1)
  with m assms(1) have "m \<le> k div u" by simp
  with assms(1) m show ?thesis by (simp add: mult.commute)
qed


lemma float8_round_succ_ge:
  assumes rep: "float8_round x = x"
  shows "x \<le> float8_round (x + 1)"
proof -
  let ?k = "x + 1"
  let ?u = "int (float8_spacing (nat \<bar>?k\<bar>))"
  have u: "0 < ?u" by (simp add: float8_spacing_pos)
  note dx = float8_representable_dvd [OF rep]
  have "?u dvd x \<or> ?u dvd ?k"
  proof (cases "x < 0")
    case True
    then have "nat \<bar>?k\<bar> \<le> nat \<bar>x\<bar>" by simp
    then have "float8_spacing (nat \<bar>?k\<bar>) dvd float8_spacing (nat \<bar>x\<bar>)"
      by (rule float8_spacing_mono)
    then have "?u dvd int (float8_spacing (nat \<bar>x\<bar>))" by simp
    with dx show ?thesis by (blast intro: dvd_trans)
  next
    case False
    then have k: "nat \<bar>?k\<bar> = Suc (nat x)" and x: "nat \<bar>x\<bar> = nat x" by simp_all
    from float8_spacing_step [of "nat x"] show ?thesis
    proof
      assume "float8_spacing (Suc (nat x)) = float8_spacing (nat x)"
      with dx show ?thesis by (simp add: k x)
    next
      assume "float8_spacing (Suc (nat x)) dvd Suc (nat x)"
      then have "int (float8_spacing (Suc (nat x))) dvd int (Suc (nat x))"
        by (simp only: int_dvd_int_iff)
      moreover from False have "int (Suc (nat x)) = x + 1" by simp
      ultimately have "int (float8_spacing (Suc (nat x))) dvd x + 1" by (simp only:)
      then show ?thesis unfolding k by (rule disjI2)
    qed
  qed
  then have "x \<le> (?k div ?u) * ?u"
  proof
    assume "?u dvd x"
    from multiple_le_div [OF u this, of ?k] show ?thesis by simp
  next
    assume d: "?u dvd ?k"
    from multiple_le_div [OF u d, of ?k] show ?thesis by simp
  qed
  with float8_round_lower [of ?k] show ?thesis by linarith
qed

lemma float8_spacing_le:
  assumes "n \<le> 9223372036854775808"
  shows "float8_spacing n \<le> 2048"
proof -
  from float8_spacing_bound [of n] assms
  have "float8_spacing n * 4503599627370496 \<le> 9223372036854775808" by simp
  then show ?thesis by simp
qed

lemma float8_round_succ_range:
  assumes "- 9223372036854775808 \<le> x" "x < 4611686018427387904"
  shows "float8_round (x + 1) < 9223372036854775808"
proof -
  from assms have "nat \<bar>x + 1\<bar> \<le> 9223372036854775808" by simp
  from float8_spacing_le [OF this] float8_round_upper [of "x + 1"] assms(2)
  show ?thesis by simp
qed

lemma float8_next_above_gt: "x < float8_next_above x"
  by (simp add: float8_next_above_def float8_spacing_pos)

lemma float8_next_above_range:
  assumes "- 9223372036854775808 \<le> x" "x < 4611686018427387904"
  shows "float8_next_above x < 9223372036854775808"
proof (cases "0 \<le> x")
  case True
  with assms have "nat x \<le> 9223372036854775808" by simp
  from float8_spacing_le [OF this] True assms(2) show ?thesis
    by (simp add: float8_next_above_def)
next
  case False
  with assms have "nat (- x - 1) \<le> 9223372036854775808" by simp
  from float8_spacing_le [OF this] False show ?thesis
    by (simp add: float8_next_above_def)
qed

lemma example_float_host_successor_spec:
  assumes rep: "float8_round (sint t) = sint t"
      and up: "sint (t :: TimestampTz) < 4611686018427387904"
  shows "float8_successor_spec (example_float_host now xid) (<)
           (float8_of_timestamp (example_float_host now xid) t)"
proof -
  let ?x = "sint t"
  have lo: "- 9223372036854775808 \<le> ?x" using sint_ge [of t] by simp
  note ge = float8_round_succ_ge [OF rep]
  note gt = float8_next_above_gt [of ?x]
  have c1: "sint (word_of_int (float8_round (?x + 1)) :: TimestampTz) = float8_round (?x + 1)"
    using ge lo float8_round_succ_range [OF lo up]
    by (simp add: sint_sbintrunc' signed_take_bit_int_eq_self)
  have c2: "sint (word_of_int (float8_next_above ?x) :: TimestampTz) = float8_next_above ?x"
    using gt lo float8_next_above_range [OF lo up]
    by (simp add: sint_sbintrunc' signed_take_bit_int_eq_self)
  from ge gt c1 c2 show ?thesis
    by (simp add: float8_successor_spec_def example_float_host_def)
qed

text \<open>
  Claim C6, amended. For every timestamp \<open>t\<close> but the largest one, the successor is
  strictly greater than \<open>t\<close>. On the integer representation it is \<open>t + 1\<close>, which
  differs from \<open>t\<close> and, unless \<open>t\<close> is the largest timestamp, is one microsecond
  above \<open>t\<close>. On the floating-point representation it is \<open>t\<close> plus one microsecond
  when that compares unequal to \<open>t\<close>, and else the next floating-point value
  towards \<^verbatim>\<open>DBL_MAX\<close>; on a host whose floating-point arithmetic is as the
  specification describes it at \<open>t\<close>, this value is above \<open>t\<close> in the order of the
  floating-point values. The representation is looked up when it has not been, and
  then kept: a later call leaves the state alone and does not depend on the
  configuration. On the floating-point host of the examples, the successor of every
  timestamp below \<open>2^62\<close> that is a floating-point number is strictly greater than
  the timestamp.
\<close>

theorem C6_next_timestamp:
  "(integer_datetimes (snd (next_timestamp env t s)) \<longrightarrow>
      fst (next_timestamp env t s) = t + 1 \<and> fst (next_timestamp env t s) \<noteq> t \<and>
      (t \<noteq> INT64_MAX \<longrightarrow>
         sint (fst (next_timestamp env t s)) = sint t + 1 \<and>
         sint t < sint (fst (next_timestamp env t s))))
   \<and> (\<not> integer_datetimes (snd (next_timestamp env t s)) \<longrightarrow>
        fst (next_timestamp env t s) =
          timestamp_of_float8 env
            (if float8_ne env (float8_plus_1E_06 env (float8_of_timestamp env t))
                  (float8_of_timestamp env t)
             then float8_plus_1E_06 env (float8_of_timestamp env t)
             else nextafter_DBL_MAX env (float8_of_timestamp env t))
        \<and> (float8_successor_spec env float8_lt (float8_of_timestamp env t) \<longrightarrow>
             float8_lt (float8_of_timestamp env t)
               (float8_of_timestamp env (fst (next_timestamp env t s)))))
   \<and> integer_datetimes_set (snd (next_timestamp env t s))
   \<and> integer_datetimes (snd (next_timestamp env t s))
        = (if integer_datetimes_set s then integer_datetimes s
           else GetConfigOption_integer_datetimes env = ''on'')
   \<and> (\<not> integer_datetimes_set s \<longrightarrow>
        snd (next_timestamp env t s) =
          s\<lparr>integer_datetimes := (GetConfigOption_integer_datetimes env = ''on''),
            integer_datetimes_set := True\<rparr>)
   \<and> (integer_datetimes_set s \<longrightarrow>
        snd (next_timestamp env t s) = s \<and>
        next_timestamp (env\<lparr>GetConfigOption_integer_datetimes := other\<rparr>) t s
          = next_timestamp env t s)
   \<and> (\<not> integer_datetimes (snd (next_timestamp (example_float_host now xid) t s)) \<and>
      float8_round (sint t) = sint t \<and> sint t < 4611686018427387904 \<longrightarrow>
        sint t < sint (fst (next_timestamp (example_float_host now xid) t s)))"
proof (intro conjI impI)
  assume i: "integer_datetimes (snd (next_timestamp env t s))"
  then show v: "fst (next_timestamp env t s) = t + 1"
    by (simp add: next_timestamp_def lookup_integer_datetimes_def Let_def split: if_splits)
  show "fst (next_timestamp env t s) \<noteq> t" unfolding v by simp
  assume "t \<noteq> INT64_MAX"
  then have m: "t \<noteq> 0x7FFFFFFFFFFFFFFF" by (simp add: INT64_MAX_def)
  show "sint (fst (next_timestamp env t s)) = sint t + 1"
    unfolding v by (rule sint_succ [OF m])
  show "sint t < sint (fst (next_timestamp env t s))"
    unfolding v using sint_succ [OF m] by simp
next
  assume f: "\<not> integer_datetimes (snd (next_timestamp env t s))"
  show "fst (next_timestamp env t s) =
          timestamp_of_float8 env
            (if float8_ne env (float8_plus_1E_06 env (float8_of_timestamp env t))
                  (float8_of_timestamp env t)
             then float8_plus_1E_06 env (float8_of_timestamp env t)
             else nextafter_DBL_MAX env (float8_of_timestamp env t))"
    by (rule next_timestamp_float8 [OF f])
  assume "float8_successor_spec env float8_lt (float8_of_timestamp env t)"
  with f show "float8_lt (float8_of_timestamp env t)
                 (float8_of_timestamp env (fst (next_timestamp env t s)))"
    by (rule next_timestamp_float8_above)
next
  show "integer_datetimes_set (snd (next_timestamp env t s))"
    by (simp add: next_timestamp_def lookup_integer_datetimes_def Let_def)
  show "integer_datetimes (snd (next_timestamp env t s))
        = (if integer_datetimes_set s then integer_datetimes s
           else GetConfigOption_integer_datetimes env = ''on'')"
    by (simp add: next_timestamp_def lookup_integer_datetimes_def Let_def)
  show "snd (next_timestamp env t s) =
          s\<lparr>integer_datetimes := (GetConfigOption_integer_datetimes env = ''on''),
            integer_datetimes_set := True\<rparr>" if "\<not> integer_datetimes_set s"
    using that by (simp add: next_timestamp_def lookup_integer_datetimes_def Let_def)
next
  assume "integer_datetimes_set s"
  then show "snd (next_timestamp env t s) = s"
    "next_timestamp (env\<lparr>GetConfigOption_integer_datetimes := other\<rparr>) t s
          = next_timestamp env t s"
    by (simp_all add: next_timestamp_def lookup_integer_datetimes_def Let_def)
next
  assume a: "\<not> integer_datetimes (snd (next_timestamp (example_float_host now xid) t s)) \<and>
      float8_round (sint t) = sint t \<and> sint t < 4611686018427387904"
  from a have "float8_successor_spec (example_float_host now xid) (<)
                 (float8_of_timestamp (example_float_host now xid) t)"
    by (simp add: example_float_host_successor_spec)
  with a have "float8_of_timestamp (example_float_host now xid) t
                 < float8_of_timestamp (example_float_host now xid)
                     (fst (next_timestamp (example_float_host now xid) t s))"
    by (simp add: next_timestamp_float8_above)
  then show "sint t < sint (fst (next_timestamp (example_float_host now xid) t s))"
    by (simp add: example_float_host_def)
qed

theorem C6_witness:
  "fst (next_timestamp (example_host 0 1) 100 initial_session) = 101
   \<and> integer_datetimes_set (snd (next_timestamp (example_host 0 1) 100 initial_session))
   \<and> sint (100 :: TimestampTz) < sint (fst (next_timestamp (example_host 0 1) 100 initial_session))
   \<and> fst (next_timestamp (example_float_host 0 1) 1000 initial_session) = 1001
   \<and> fst (next_timestamp (example_float_host 0 1) 9007199254740992 initial_session)
       = 9007199254740994
   \<and> sint (9007199254740992 :: TimestampTz)
       < sint (fst (next_timestamp (example_float_host 0 1) 9007199254740992 initial_session))
   \<and> sint (18014398509481984 :: TimestampTz)
       < sint (fst (next_timestamp (example_float_host 0 1) 18014398509481984 initial_session))"
proof -
  note defs = next_timestamp_def lookup_integer_datetimes_def example_host_def
    example_float_host_def initial_session_def INT64_MAX_def
  have i: "integer_datetimes (snd (next_timestamp (example_host 0 1) 100 initial_session))"
    by (simp add: defs)
  have f: "\<not> integer_datetimes (snd (next_timestamp (example_float_host 0 1) t initial_session))"
    for t
    by (simp add: defs Let_def)
  have small: "float8_round 1001 = 1001" "float8_next_above 1000 = 1001"
    by (simp_all add: float8_round_def float8_next_above_def float8_spacing.simps Let_def)
  have large: "float8_round 9007199254740993 = 9007199254740992"
    "float8_next_above 9007199254740992 = 9007199254740994"
    by (simp_all add: float8_round_def float8_next_above_def float8_spacing.simps Let_def)
  have h1: "float8_successor_spec (example_float_host 0 1) (<)
              (float8_of_timestamp (example_float_host 0 1) 1000)"
    by (simp add: float8_successor_spec_def example_float_host_def small)
  have h2: "float8_successor_spec (example_float_host 0 1) (<)
              (float8_of_timestamp (example_float_host 0 1) 9007199254740992)"
    by (simp add: float8_successor_spec_def example_float_host_def large)
  note int = C6_next_timestamp [of "example_host 0 1" 100 initial_session,
      THEN conjunct1, rule_format, OF i]
  note fl1 = C6_next_timestamp [of "example_float_host 0 1" 1000 initial_session "(<)",
      THEN conjunct2, THEN conjunct1, rule_format, OF f]
  note fl2 = C6_next_timestamp [of "example_float_host 0 1" 9007199254740992 initial_session "(<)",
      THEN conjunct2, THEN conjunct1, rule_format, OF f]
  from int have 1: "fst (next_timestamp (example_host 0 1) 100 initial_session) = 101"
    "sint (100 :: TimestampTz) < sint (fst (next_timestamp (example_host 0 1) 100 initial_session))"
    by (simp_all add: INT64_MAX_def)
  have 2: "integer_datetimes_set (snd (next_timestamp (example_host 0 1) 100 initial_session))"
    using C6_next_timestamp [of "example_host 0 1" 100 initial_session,
        THEN conjunct2, THEN conjunct2, THEN conjunct1] .
  from fl1 [THEN conjunct1]
  have 3: "fst (next_timestamp (example_float_host 0 1) 1000 initial_session) = 1001"
    by (simp add: example_float_host_def small)
  from fl2 [THEN conjunct1]
  have 4: "fst (next_timestamp (example_float_host 0 1) 9007199254740992 initial_session)
             = 9007199254740994"
    by (simp add: example_float_host_def large)
  from fl2 [THEN conjunct2, rule_format, OF h2]
  have 5: "sint (9007199254740992 :: TimestampTz)
       < sint (fst (next_timestamp (example_float_host 0 1) 9007199254740992 initial_session))"
    by (simp add: example_float_host_def)
  have h3: "\<not> integer_datetimes
                (snd (next_timestamp (example_float_host 0 1) 18014398509481984 initial_session)) \<and>
            float8_round (sint (18014398509481984 :: TimestampTz))
              = sint (18014398509481984 :: TimestampTz) \<and>
            sint (18014398509481984 :: TimestampTz) < 4611686018427387904"
    by (simp add: f float8_round_def float8_spacing.simps Let_def)
  have 6: "sint (18014398509481984 :: TimestampTz)
       < sint (fst (next_timestamp (example_float_host 0 1) 18014398509481984 initial_session))"
    by (rule C6_next_timestamp [of _ 18014398509481984 initial_session _ _ 0 1,
          THEN conjunct2, THEN conjunct2, THEN conjunct2, THEN conjunct2, THEN conjunct2,
          THEN conjunct2, rule_format, OF h3])
  from 1 2 3 4 5 6 show ?thesis by simp
qed

subsection \<open>Unfolding the model on concrete calls\<close>

lemmas trigger_event_defs =
  TRIGGER_FIRED_BY_INSERT_def TRIGGER_FIRED_BY_DELETE_def TRIGGER_FIRED_BY_UPDATE_def
  TRIGGER_FIRED_FOR_ROW_def TRIGGER_FIRED_BEFORE_def
  TRIGGER_EVENT_INSERT_def TRIGGER_EVENT_DELETE_def TRIGGER_EVENT_UPDATE_def
  TRIGGER_EVENT_OPMASK_def TRIGGER_EVENT_ROW_def TRIGGER_EVENT_BEFORE_def
  TRIGGER_EVENT_TIMINGMASK_def

lemmas host_defs =
  SPI_fnumber_def SystemAttributeByName_def SPI_ERROR_NOATTRIBUTE_def SPI_getbinval_def
  heap_getattr_def heap_deform_tuple_def SPI_gettypeid_def modify_tuple_def
  RangeTypePGetDatum_def make_range_def range_cmp_bound_values_def range_cmp_bounds_def
  timestamp_cmp_def serialize_bound_def TIMESTAMPTZOID_def TYPTYPE_RANGE_def
  SPI_OK_CONNECT_def SPI_OK_FINISH_def SPI_OK_INSERT_def tgnargs_def
  pg_strcasecmp_def pg_ascii_tolower_def

lemmas versioning_defs =
  versioning_def versioning_insert_def versioning_update_def versioning_delete_def
  archive_old_row_def adjust_system_period_def next_timestamp_def
  lookup_integer_datetimes_def deserialize_system_period_def
  modified_in_current_transaction_def parse_adjust_argument_def get_period_typcache_def
  check_attr_type_def insert_history_row_def execute_history_plan_def
  fill_versioning_hash_entry_def lookup_versioning_hash_entry_def cached_data_invalid_def
  free_cached_data_def store_hash_entry_def get_system_time_def
  get_current_temporal_context_def

lemmas example_defs =
  example_R_def example_R_hist_def example_host_def initial_session_def example_row_def
  example_call_def example_trigdata_def example_typcache_def
  example_plan_def PG_init_def InvalidSubTransactionId_def

subsection \<open>The adjustment of the closing bound\<close>

lemma range_cmp_bounds_closing:
  assumes "lower lb" "\<not> lower ub" "\<not> infinite_bound ub" "\<not> inclusive ub"
  shows "range_cmp_bounds lb ub \<ge> 0 \<longleftrightarrow> \<not> infinite_bound lb \<and> sint (val ub) \<le> sint (val lb)"
  using assms by (auto simp: range_cmp_bounds_def timestamp_cmp_def Let_def)

lemma deserialize_bound_lower [simp]: "lower (deserialize_bound l b) = l"
  by (cases b) simp_all

lemma range_deserialize_lower:
  "range_deserialize r = (lb, ub, e) \<Longrightarrow> lower lb \<and> \<not> lower ub"
  by (cases r) auto

lemma deserialize_system_period_bounds:
  assumes "deserialize_system_period tuple relation n name = Inr (lb, ub)"
  shows "lower lb \<and> \<not> lower ub \<and> infinite_bound ub"
  using assms
  by (auto simp: deserialize_system_period_def
      split: option.splits prod.splits if_splits dest: range_deserialize_lower)


lemma adjust_system_period_conflict:
  assumes "lower lb" "\<not> lower ub" "\<not> infinite_bound ub" "\<not> inclusive ub"
      and "\<not> infinite_bound lb" "sint (val ub) \<le> sint (val lb)"
  shows "adjust_system_period env lb ub adj rel s =
           (case parse_adjust_argument adj of
              Inl e \<Rightarrow> (Inl e, s)
            | Inr False \<Rightarrow> (Inl (CannotSetValidPeriod (rd_relname rel) (Some (val lb)) (val ub)), s)
            | Inr True \<Rightarrow>
                (Inr (ub\<lparr>val := fst (next_timestamp env (val lb)
                                    (s\<lparr>warnings := warnings s @ [SystemPeriodAdjusted (rd_relname rel)]\<rparr>))\<rparr>),
                 snd (next_timestamp env (val lb)
                        (s\<lparr>warnings := warnings s @ [SystemPeriodAdjusted (rd_relname rel)]\<rparr>))))"
  using range_cmp_bounds_closing [OF assms(1-4)] assms(5,6)
  by (simp add: adjust_system_period_def Let_def split: sum.splits prod.splits bool.splits)

lemma adjust_system_period_no_conflict:
  assumes "lower lb" "\<not> lower ub" "\<not> infinite_bound ub" "\<not> inclusive ub"
      and "infinite_bound lb \<or> sint (val lb) < sint (val ub)"
  shows "adjust_system_period env lb ub adj rel s = (Inr ub, s)"
proof -
  from range_cmp_bounds_closing [OF assms(1-4)] assms(5)
  have "\<not> 0 \<le> range_cmp_bounds lb ub" by auto
  then show ?thesis by (simp add: adjust_system_period_def)
qed


lemma make_range_current:
  "make_range \<lparr>val = v, infinite_bound = False, inclusive = True, lower = True\<rparr>
              \<lparr>val = w, infinite_bound = True, inclusive = False, lower = False\<rparr>
     = Inr (NonEmptyRange (Bounded v True) Unbounded)"
  by (simp add: make_range_def range_cmp_bound_values_def serialize_bound_def)






lemma next_timestamp_frame:
  "versioning_cache (snd (next_timestamp env t s)) = versioning_cache s"
  "history_rows (snd (next_timestamp env t s)) = history_rows s"
  "temporal_contexts (snd (next_timestamp env t s)) = temporal_contexts s"
  "warnings (snd (next_timestamp env t s)) = warnings s"
  by (simp_all add: next_timestamp_def lookup_integer_datetimes_def Let_def)





subsection \<open>The validation of the trigger call\<close>

lemma find_attribute_Some:
  "find_attribute td fname i = Some m \<Longrightarrow>
   \<exists>j < length td. m = i + int j + 1 \<and> attname (td ! j) = fname \<and> \<not> attisdropped (td ! j)"
proof (induction td arbitrary: i)
  case Nil
  then show ?case by simp
next
  case (Cons attr rest)
  show ?case
  proof (cases "attname attr = fname \<and> \<not> attisdropped attr")
    case True
    with Cons.prems show ?thesis by (intro exI [of _ 0]) auto
  next
    case False
    with Cons.prems have "find_attribute rest fname (i + 1) = Some m" by auto
    from Cons.IH [OF this] obtain j where "j < length rest" "m = i + 1 + int j + 1"
      "attname (rest ! j) = fname" "\<not> attisdropped (rest ! j)" by (elim exE conjE)
    then show ?thesis by (intro exI [of _ "Suc j"]) simp
  qed
qed

lemma SPI_fnumber_positive:
  assumes "0 < SPI_fnumber td fname"
  shows "\<exists>j < length td. SPI_fnumber td fname = int j + 1 \<and> attname (td ! j) = fname \<and>
           \<not> attisdropped (td ! j)"
proof (cases "find_attribute td fname 0")
  case None
  with assms show ?thesis
    by (auto simp: SPI_fnumber_def SystemAttributeByName_def SPI_ERROR_NOATTRIBUTE_def
          split: option.splits if_splits)
next
  case (Some m)
  from find_attribute_Some [OF Some] Some show ?thesis
    by (auto simp: SPI_fnumber_def)
qed

lemma versioning_insert_trigger:
  "versioning_insert env (td\<lparr>tg_trigger := t\<rparr>) tc n s = versioning_insert env td tc n s"
  by (simp add: versioning_insert_def Let_def split: option.splits sum.splits)

lemma versioning_not_trigger:
  "fcinfo_context fcinfo = None \<Longrightarrow> versioning env fcinfo s = (Inl NotCalledByTriggerManager, s)"
  by (simp add: versioning_def)

lemma versioning_not_before_row:
  "fcinfo_context fcinfo = Some td \<Longrightarrow>
   \<not> (TRIGGER_FIRED_BEFORE (tg_event td) \<and> TRIGGER_FIRED_FOR_ROW (tg_event td)) \<Longrightarrow>
   versioning env fcinfo s = (Inl MustBeFiredBeforeRow, s)"
  by (simp add: versioning_def split del: if_split)

lemma versioning_wrong_event:
  "fcinfo_context fcinfo = Some td \<Longrightarrow>
   TRIGGER_FIRED_BEFORE (tg_event td) \<Longrightarrow> TRIGGER_FIRED_FOR_ROW (tg_event td) \<Longrightarrow>
   \<not> (TRIGGER_FIRED_BY_INSERT (tg_event td) \<or> TRIGGER_FIRED_BY_UPDATE (tg_event td) \<or>
      TRIGGER_FIRED_BY_DELETE (tg_event td)) \<Longrightarrow>
   versioning env fcinfo s = (Inl MustBeFiredForInsertUpdateDelete, s)"
  by (simp add: versioning_def split del: if_split)

lemma versioning_wrong_nargs:
  assumes "fcinfo_context fcinfo = Some td"
      and "TRIGGER_FIRED_BEFORE (tg_event td)" "TRIGGER_FIRED_FOR_ROW (tg_event td)"
      and "TRIGGER_FIRED_BY_INSERT (tg_event td) \<or> TRIGGER_FIRED_BY_UPDATE (tg_event td) \<or>
           TRIGGER_FIRED_BY_DELETE (tg_event td)"
      and "tgnargs (tg_trigger td) \<noteq> 3"
  shows "versioning env fcinfo s = (Inl (WrongNumberOfParameters (tgnargs (tg_trigger td))), s)"
  using assms(4)
proof (elim disjE)
  assume "TRIGGER_FIRED_BY_INSERT (tg_event td)"
  then show ?thesis
    using assms(1,2,3,5) unfolding versioning_def Let_def by (simp split del: if_split)
next
  assume "TRIGGER_FIRED_BY_UPDATE (tg_event td)"
  then show ?thesis
    using assms(1,2,3,5) unfolding versioning_def Let_def by (simp split del: if_split)
next
  assume "TRIGGER_FIRED_BY_DELETE (tg_event td)"
  then show ?thesis
    using assms(1,2,3,5) unfolding versioning_def Let_def by (simp split del: if_split)
qed


lemma versioning_insert_args:
  assumes "TRIGGER_FIRED_BY_INSERT (tg_event td)"
  shows "versioning env \<lparr>fcinfo_context = Some (td\<lparr>tg_trigger := \<lparr>tgargs = [p, h, a]\<rparr>\<rparr>)\<rparr> s
           = versioning env \<lparr>fcinfo_context = Some (td\<lparr>tg_trigger := \<lparr>tgargs = [p, h, a']\<rparr>\<rparr>)\<rparr> s"
  using assms
  by (simp add: versioning_def Let_def tgnargs_def versioning_insert_trigger cong: sum.case_cong)

lemma versioning_update_trigger:
  "versioning_update env (td\<lparr>tg_trigger := t\<rparr>) tc n p h a s = versioning_update env td tc n p h a s"
  by (simp add: versioning_update_def Let_def cong: prod.case_cong sum.case_cong option.case_cong)

lemma versioning_delete_trigger:
  "versioning_delete env (td\<lparr>tg_trigger := t\<rparr>) tc n p h a s = versioning_delete env td tc n p h a s"
  by (simp add: versioning_delete_def Let_def)

lemma archive_old_row_no_parse:
  assumes "\<not> closing_bound_conflict env td n p s"
  shows "archive_old_row env (tg_trigtuple td) (tg_relation td) n p h a s
           = archive_old_row env (tg_trigtuple td) (tg_relation td) n p h a' s"
proof (cases "deserialize_system_period (tg_trigtuple td) (tg_relation td) n p")
  case (Inl e)
  then show ?thesis by (simp add: archive_old_row_def)
next
  case (Inr b)
  obtain lb ub0 where b: "b = (lb, ub0)" by (cases b)
  show ?thesis
  proof (cases "get_system_time (GetCurrentTransactionStartTimestamp env)
                  (GetCurrentSubTransactionId env) (temporal_contexts s)")
    case None
    with Inr b show ?thesis by (simp add: archive_old_row_def)
  next
    case (Some now)
    let ?ub1 = "ub0\<lparr>val := now, infinite_bound := False, inclusive := False\<rparr>"
    from assms Inr b Some have "\<not> 0 \<le> range_cmp_bounds lb ?ub1"
      by (simp add: closing_bound_conflict_def)
    then have "adjust_system_period env lb ?ub1 x (tg_relation td) s = (Inr ?ub1, s)" for x
      by (simp add: adjust_system_period_def)
    with Inr b Some show ?thesis by (simp add: archive_old_row_def)
  qed
qed

lemma archive_old_row_parse_error:
  assumes "closing_bound_conflict env td n p s" "parse_adjust_argument a = Inl e"
  shows "archive_old_row env (tg_trigtuple td) (tg_relation td) n p h a s = (Inl e, s)"
proof -
  from assms(1) obtain lb ub0 now where
    d: "deserialize_system_period (tg_trigtuple td) (tg_relation td) n p = Inr (lb, ub0)"
    and t: "get_system_time (GetCurrentTransactionStartTimestamp env)
              (GetCurrentSubTransactionId env) (temporal_contexts s) = Some now"
    and c: "0 \<le> range_cmp_bounds lb (ub0\<lparr>val := now, infinite_bound := False, inclusive := False\<rparr>)"
    by (auto simp: closing_bound_conflict_def split: sum.splits option.splits)
  from c assms(2)
  have "adjust_system_period env lb (ub0\<lparr>val := now, infinite_bound := False, inclusive := False\<rparr>)
          a (tg_relation td) s = (Inl e, s)"
    by (simp add: adjust_system_period_def)
  with d t show ?thesis by (simp add: archive_old_row_def)
qed

lemma versioning_update_no_parse:
  assumes "modified_in_current_transaction env (tg_trigtuple td) \<or>
           \<not> closing_bound_conflict env td n p s"
  shows "versioning_update env td tc n p h a s = versioning_update env td tc n p h a' s"
proof (cases "modified_in_current_transaction env (tg_trigtuple td)")
  case True
  then show ?thesis by (simp add: versioning_update_def)
next
  case False
  with assms have "\<not> closing_bound_conflict env td n p s" by simp
  from archive_old_row_no_parse [OF this, of h a a'] show ?thesis
    by (simp add: versioning_update_def Let_def)
qed

lemma versioning_delete_no_parse:
  assumes "modified_in_current_transaction env (tg_trigtuple td) \<or>
           \<not> closing_bound_conflict env td n p s"
  shows "versioning_delete env td tc n p h a s = versioning_delete env td tc n p h a' s"
proof (cases "modified_in_current_transaction env (tg_trigtuple td)")
  case True
  then show ?thesis by (simp add: versioning_delete_def)
next
  case False
  with assms have "\<not> closing_bound_conflict env td n p s" by simp
  from archive_old_row_no_parse [OF this, of h a a'] show ?thesis
    by (simp add: versioning_delete_def Let_def)
qed

lemma closing_bound_conflict_trigger [simp]:
  "closing_bound_conflict env (td\<lparr>tg_trigger := t\<rparr>) n p s = closing_bound_conflict env td n p s"
  by (simp add: closing_bound_conflict_def)

lemma versioning_no_parse:
  assumes "modified_in_current_transaction env (tg_trigtuple td) \<or>
           \<not> closing_bound_conflict env td (SPI_fnumber (rd_att (tg_relation td)) p) p s"
  shows "versioning env \<lparr>fcinfo_context = Some (td\<lparr>tg_trigger := \<lparr>tgargs = [p, h, a]\<rparr>\<rparr>)\<rparr> s
           = versioning env \<lparr>fcinfo_context = Some (td\<lparr>tg_trigger := \<lparr>tgargs = [p, h, a']\<rparr>\<rparr>)\<rparr> s"
proof -
  let ?n = "SPI_fnumber (rd_att (tg_relation td)) p"
  have u: "versioning_update env td tc ?n p h a s = versioning_update env td tc ?n p h a' s" for tc
    by (rule versioning_update_no_parse [OF assms])
  have d: "versioning_delete env td tc ?n p h a s = versioning_delete env td tc ?n p h a' s" for tc
    by (rule versioning_delete_no_parse [OF assms])
  show ?thesis
    by (simp add: versioning_def Let_def tgnargs_def versioning_insert_trigger
          versioning_update_trigger versioning_delete_trigger u d split: sum.splits)
qed


lemma versioning_update_delete_call:
  assumes ev: "TRIGGER_FIRED_BEFORE (tg_event td)" "TRIGGER_FIRED_FOR_ROW (tg_event td)"
              "\<not> TRIGGER_FIRED_BY_INSERT (tg_event td)"
              "TRIGGER_FIRED_BY_UPDATE (tg_event td) \<or> TRIGGER_FIRED_BY_DELETE (tg_event td)"
      and n: "0 < SPI_fnumber (rd_att (tg_relation td)) p"
      and dims: "attndims (rd_att (tg_relation td) !
                    nat (SPI_fnumber (rd_att (tg_relation td)) p - 1)) = 0"
      and tc: "get_period_typcache env
                 (rd_att (tg_relation td) ! nat (SPI_fnumber (rd_att (tg_relation td)) p - 1))
                 (tg_relation td) = Inr tc"
  shows "versioning env \<lparr>fcinfo_context = Some (td\<lparr>tg_trigger := \<lparr>tgargs = [p, h, a]\<rparr>\<rparr>)\<rparr> s
           = (if TRIGGER_FIRED_BY_UPDATE (tg_event td)
              then versioning_update env td tc (SPI_fnumber (rd_att (tg_relation td)) p) p h a s
              else versioning_delete env td tc (SPI_fnumber (rd_att (tg_relation td)) p) p h a s)"
proof -
  let ?n = "SPI_fnumber (rd_att (tg_relation td)) p"
  from SPI_fnumber_positive [OF n] obtain j where
    j: "j < length (rd_att (tg_relation td))" "?n = int j + 1"
       "\<not> attisdropped (rd_att (tg_relation td) ! j)" by (elim exE conjE)
  from j have idx: "nat (?n - 1) = j" by simp
  from j have c1: "?n \<noteq> SPI_ERROR_NOATTRIBUTE" by (simp add: SPI_ERROR_NOATTRIBUTE_def)
  from j have c2: "\<not> (?n - 1 < 0 \<or> int (length (rd_att (tg_relation td))) \<le> ?n - 1)" by simp
  from j idx have c3: "\<not> attisdropped (rd_att (tg_relation td) ! nat (?n - 1))" by simp
  show ?thesis
  proof (cases "TRIGGER_FIRED_BY_UPDATE (tg_event td)")
    case True
    with ev(1-3) c1 c2 c3 dims tc show ?thesis
      unfolding versioning_def Let_def
      by (simp add: tgnargs_def versioning_update_trigger versioning_delete_trigger)
  next
    case False
    with ev(4) have "TRIGGER_FIRED_BY_DELETE (tg_event td)" by simp
    with False ev(1-3) c1 c2 c3 dims tc show ?thesis
      unfolding versioning_def Let_def
      by (simp add: tgnargs_def versioning_update_trigger versioning_delete_trigger)
  qed
qed

text \<open>
  Claim C9, as stated, fails on the adjust value: it is parsed only when a conflict is
  found, so an insert whose third argument is neither \<open>true\<close> nor \<open>false\<close> succeeds.
\<close>

theorem C9_counterexample:
  "parse_adjust_argument ''maybe'' = Inl (InvalidAdjustValue ''maybe'')
   \<and> versioning (example_host 1000 9)
        (example_call 12 (example_row 0 ''a'' None) None ''maybe'') initial_session
     = (Inr (Some (example_row 0 ''a'' (Some (NonEmptyRange (Bounded 1000 True) Unbounded)))),
        initial_session)"
  by (simp add: versioning_defs host_defs example_defs trigger_event_defs Let_def upt_rec)

text \<open>
  Claim C9, amended. Before it looks at the relation or dispatches on the operation,
  the trigger function fails, leaving the session as it is, unless it was called by
  the trigger manager, BEFORE, for each ROW, for INSERT or UPDATE or DELETE, with
  exactly three arguments. The adjust argument is parsed without regard to case:
  \<open>true\<close>, \<open>false\<close>, any other value being an error. It is parsed only by
  \<^verbatim>\<open>adjust_system_period\<close> and only when the closing bound is not above the lower
  bound. So an update or delete of a row not modified in the current transaction
  that finds this conflict fails with the error of the parse, the session unchanged,
  when the value does not parse (in \<^verbatim>\<open>versioning_update\<close> and \<^verbatim>\<open>versioning_delete\<close>, and
  in the trigger function itself when it is fired BEFORE, for each ROW, for UPDATE or
  DELETE, on a relation whose period column exists, is no array and has a range type
  over timestamps with time zone); and the whole result of the trigger function does
  not depend on the value for an insert, for a row modified in the current
  transaction, and for an update or delete without this conflict.
\<close>

theorem C9_validation:
  "(\<not> CALLED_AS_TRIGGER fcinfo \<longrightarrow> versioning env fcinfo s = (Inl NotCalledByTriggerManager, s))
   \<and> (\<forall>td. fcinfo_context fcinfo = Some td \<longrightarrow>
         (\<not> (TRIGGER_FIRED_BEFORE (tg_event td) \<and> TRIGGER_FIRED_FOR_ROW (tg_event td)) \<longrightarrow>
            versioning env fcinfo s = (Inl MustBeFiredBeforeRow, s))
       \<and> (TRIGGER_FIRED_BEFORE (tg_event td) \<and> TRIGGER_FIRED_FOR_ROW (tg_event td) \<and>
          \<not> (TRIGGER_FIRED_BY_INSERT (tg_event td) \<or> TRIGGER_FIRED_BY_UPDATE (tg_event td) \<or>
             TRIGGER_FIRED_BY_DELETE (tg_event td)) \<longrightarrow>
            versioning env fcinfo s = (Inl MustBeFiredForInsertUpdateDelete, s))
       \<and> (TRIGGER_FIRED_BEFORE (tg_event td) \<and> TRIGGER_FIRED_FOR_ROW (tg_event td) \<and>
          (TRIGGER_FIRED_BY_INSERT (tg_event td) \<or> TRIGGER_FIRED_BY_UPDATE (tg_event td) \<or>
             TRIGGER_FIRED_BY_DELETE (tg_event td)) \<and>
          tgnargs (tg_trigger td) \<noteq> 3 \<longrightarrow>
            versioning env fcinfo s
              = (Inl (WrongNumberOfParameters (tgnargs (tg_trigger td))), s)))
   \<and> parse_adjust_argument arg =
        (if map pg_ascii_tolower arg = ''true'' then Inr True
         else if map pg_ascii_tolower arg = ''false'' then Inr False
         else Inl (InvalidAdjustValue arg))
   \<and> (0 \<le> range_cmp_bounds lb ub \<longrightarrow>
        (\<forall>e. parse_adjust_argument arg = Inl e \<longrightarrow>
           adjust_system_period env lb ub arg rel s = (Inl e, s)))
   \<and> (range_cmp_bounds lb ub < 0 \<longrightarrow> adjust_system_period env lb ub arg rel s = (Inr ub, s))
   \<and> (\<forall>td tc n e.
         \<not> modified_in_current_transaction env (tg_trigtuple td) \<and>
         closing_bound_conflict env td n p s \<and> parse_adjust_argument arg = Inl e \<longrightarrow>
           versioning_update env td tc n p h arg s = (Inl e, s) \<and>
           versioning_delete env td tc n p h arg s = (Inl e, s))
   \<and> (\<forall>td tc e.
         TRIGGER_FIRED_BEFORE (tg_event td) \<and> TRIGGER_FIRED_FOR_ROW (tg_event td) \<and>
         \<not> TRIGGER_FIRED_BY_INSERT (tg_event td) \<and>
         (TRIGGER_FIRED_BY_UPDATE (tg_event td) \<or> TRIGGER_FIRED_BY_DELETE (tg_event td)) \<and>
         0 < SPI_fnumber (rd_att (tg_relation td)) p \<and>
         attndims (rd_att (tg_relation td) !
                     nat (SPI_fnumber (rd_att (tg_relation td)) p - 1)) = 0 \<and>
         get_period_typcache env
           (rd_att (tg_relation td) ! nat (SPI_fnumber (rd_att (tg_relation td)) p - 1))
           (tg_relation td) = Inr tc \<and>
         \<not> modified_in_current_transaction env (tg_trigtuple td) \<and>
         closing_bound_conflict env td (SPI_fnumber (rd_att (tg_relation td)) p) p s \<and>
         parse_adjust_argument arg = Inl e \<longrightarrow>
           versioning env \<lparr>fcinfo_context = Some (td\<lparr>tg_trigger := \<lparr>tgargs = [p, h, arg]\<rparr>\<rparr>)\<rparr> s
             = (Inl e, s))
   \<and> (\<forall>td. TRIGGER_FIRED_BY_INSERT (tg_event td) \<or>
            modified_in_current_transaction env (tg_trigtuple td) \<or>
            \<not> closing_bound_conflict env td (SPI_fnumber (rd_att (tg_relation td)) p) p s \<longrightarrow>
         versioning env \<lparr>fcinfo_context = Some (td\<lparr>tg_trigger := \<lparr>tgargs = [p, h, arg]\<rparr>\<rparr>)\<rparr> s
           = versioning env \<lparr>fcinfo_context = Some (td\<lparr>tg_trigger := \<lparr>tgargs = [p, h, arg']\<rparr>\<rparr>)\<rparr> s)"
proof -
  have lower_true: "map pg_ascii_tolower ''true'' = ''true''"
    and lower_false: "map pg_ascii_tolower ''false'' = ''false''"
    by (simp_all add: pg_ascii_tolower_def)
  have parse: "parse_adjust_argument arg =
        (if map pg_ascii_tolower arg = ''true'' then Inr True
         else if map pg_ascii_tolower arg = ''false'' then Inr False
         else Inl (InvalidAdjustValue arg))"
    unfolding parse_adjust_argument_def pg_strcasecmp_def lower_true lower_false by simp
  have adj1: "adjust_system_period env lb ub arg rel s = (Inl e, s)"
    if "0 \<le> range_cmp_bounds lb ub" "parse_adjust_argument arg = Inl e" for e
    using that by (simp add: adjust_system_period_def)
  have adj2: "adjust_system_period env lb ub arg rel s = (Inr ub, s)"
    if "range_cmp_bounds lb ub < 0"
    using that by (simp add: adjust_system_period_def)
  have checks:
    "(\<not> (TRIGGER_FIRED_BEFORE (tg_event td) \<and> TRIGGER_FIRED_FOR_ROW (tg_event td)) \<longrightarrow>
            versioning env fcinfo s = (Inl MustBeFiredBeforeRow, s))
       \<and> (TRIGGER_FIRED_BEFORE (tg_event td) \<and> TRIGGER_FIRED_FOR_ROW (tg_event td) \<and>
          \<not> (TRIGGER_FIRED_BY_INSERT (tg_event td) \<or> TRIGGER_FIRED_BY_UPDATE (tg_event td) \<or>
             TRIGGER_FIRED_BY_DELETE (tg_event td)) \<longrightarrow>
            versioning env fcinfo s = (Inl MustBeFiredForInsertUpdateDelete, s))
       \<and> (TRIGGER_FIRED_BEFORE (tg_event td) \<and> TRIGGER_FIRED_FOR_ROW (tg_event td) \<and>
          (TRIGGER_FIRED_BY_INSERT (tg_event td) \<or> TRIGGER_FIRED_BY_UPDATE (tg_event td) \<or>
             TRIGGER_FIRED_BY_DELETE (tg_event td)) \<and>
          tgnargs (tg_trigger td) \<noteq> 3 \<longrightarrow>
            versioning env fcinfo s
              = (Inl (WrongNumberOfParameters (tgnargs (tg_trigger td))), s))"
    if c: "fcinfo_context fcinfo = Some td" for td
  proof (intro conjI impI)
    assume "\<not> (TRIGGER_FIRED_BEFORE (tg_event td) \<and> TRIGGER_FIRED_FOR_ROW (tg_event td))"
    then show "versioning env fcinfo s = (Inl MustBeFiredBeforeRow, s)"
      by (rule versioning_not_before_row [OF c])
  next
    assume a: "TRIGGER_FIRED_BEFORE (tg_event td) \<and> TRIGGER_FIRED_FOR_ROW (tg_event td) \<and>
          \<not> (TRIGGER_FIRED_BY_INSERT (tg_event td) \<or> TRIGGER_FIRED_BY_UPDATE (tg_event td) \<or>
             TRIGGER_FIRED_BY_DELETE (tg_event td))"
    show "versioning env fcinfo s = (Inl MustBeFiredForInsertUpdateDelete, s)"
      by (rule versioning_wrong_event [OF c conjunct1 [OF a] conjunct1 [OF conjunct2 [OF a]]
            conjunct2 [OF conjunct2 [OF a]]])
  next
    assume a: "TRIGGER_FIRED_BEFORE (tg_event td) \<and> TRIGGER_FIRED_FOR_ROW (tg_event td) \<and>
          (TRIGGER_FIRED_BY_INSERT (tg_event td) \<or> TRIGGER_FIRED_BY_UPDATE (tg_event td) \<or>
             TRIGGER_FIRED_BY_DELETE (tg_event td)) \<and>
          tgnargs (tg_trigger td) \<noteq> 3"
    show "versioning env fcinfo s
              = (Inl (WrongNumberOfParameters (tgnargs (tg_trigger td))), s)"
      by (rule versioning_wrong_nargs [OF c conjunct1 [OF a] conjunct1 [OF conjunct2 [OF a]]
            conjunct1 [OF conjunct2 [OF conjunct2 [OF a]]]
            conjunct2 [OF conjunct2 [OF conjunct2 [OF a]]]])
  qed
  have nt: "versioning env fcinfo s = (Inl NotCalledByTriggerManager, s)"
    if "\<not> CALLED_AS_TRIGGER fcinfo"
    using that by (intro versioning_not_trigger) (simp add: CALLED_AS_TRIGGER_def)
  have perr: "versioning_update env td tc n p h arg s = (Inl e, s) \<and>
              versioning_delete env td tc n p h arg s = (Inl e, s)"
    if a: "\<not> modified_in_current_transaction env (tg_trigtuple td) \<and>
         closing_bound_conflict env td n p s \<and> parse_adjust_argument arg = Inl e"
    for td tc n e
  proof -
    from a have nm: "\<not> modified_in_current_transaction env (tg_trigtuple td)"
      and c: "closing_bound_conflict env td n p s" and pe: "parse_adjust_argument arg = Inl e"
      by simp_all
    from archive_old_row_parse_error [OF c pe, of h] nm show ?thesis
      by (simp add: versioning_update_def versioning_delete_def Let_def)
  qed
  have verr: "versioning env \<lparr>fcinfo_context = Some (td\<lparr>tg_trigger := \<lparr>tgargs = [p, h, arg]\<rparr>\<rparr>)\<rparr> s
             = (Inl e, s)"
    if a: "TRIGGER_FIRED_BEFORE (tg_event td) \<and> TRIGGER_FIRED_FOR_ROW (tg_event td) \<and>
         \<not> TRIGGER_FIRED_BY_INSERT (tg_event td) \<and>
         (TRIGGER_FIRED_BY_UPDATE (tg_event td) \<or> TRIGGER_FIRED_BY_DELETE (tg_event td)) \<and>
         0 < SPI_fnumber (rd_att (tg_relation td)) p \<and>
         attndims (rd_att (tg_relation td) !
                     nat (SPI_fnumber (rd_att (tg_relation td)) p - 1)) = 0 \<and>
         get_period_typcache env
           (rd_att (tg_relation td) ! nat (SPI_fnumber (rd_att (tg_relation td)) p - 1))
           (tg_relation td) = Inr tc \<and>
         \<not> modified_in_current_transaction env (tg_trigtuple td) \<and>
         closing_bound_conflict env td (SPI_fnumber (rd_att (tg_relation td)) p) p s \<and>
         parse_adjust_argument arg = Inl e"
    for td tc e
  proof -
    note call = versioning_update_delete_call
      [OF a [THEN conjunct1] a [THEN conjunct2, THEN conjunct1]
          a [THEN conjunct2, THEN conjunct2, THEN conjunct1]
          a [THEN conjunct2, THEN conjunct2, THEN conjunct2, THEN conjunct1]
          a [THEN conjunct2, THEN conjunct2, THEN conjunct2, THEN conjunct2, THEN conjunct1]
          a [THEN conjunct2, THEN conjunct2, THEN conjunct2, THEN conjunct2, THEN conjunct2,
             THEN conjunct1]
          a [THEN conjunct2, THEN conjunct2, THEN conjunct2, THEN conjunct2, THEN conjunct2,
             THEN conjunct2, THEN conjunct1], of h arg s]
    from a have "\<not> modified_in_current_transaction env (tg_trigtuple td) \<and>
         closing_bound_conflict env td (SPI_fnumber (rd_att (tg_relation td)) p) p s \<and>
         parse_adjust_argument arg = Inl e" by simp
    from perr [OF this, of tc] call show ?thesis by simp
  qed
  have indep: "versioning env \<lparr>fcinfo_context = Some (td\<lparr>tg_trigger := \<lparr>tgargs = [p, h, arg]\<rparr>\<rparr>)\<rparr> s
           = versioning env \<lparr>fcinfo_context = Some (td\<lparr>tg_trigger := \<lparr>tgargs = [p, h, arg']\<rparr>\<rparr>)\<rparr> s"
    if a: "TRIGGER_FIRED_BY_INSERT (tg_event td) \<or>
            modified_in_current_transaction env (tg_trigtuple td) \<or>
            \<not> closing_bound_conflict env td (SPI_fnumber (rd_att (tg_relation td)) p) p s"
    for td
  proof (cases "TRIGGER_FIRED_BY_INSERT (tg_event td)")
    case True
    then show ?thesis by (rule versioning_insert_args)
  next
    case False
    with a have "modified_in_current_transaction env (tg_trigtuple td) \<or>
            \<not> closing_bound_conflict env td (SPI_fnumber (rd_att (tg_relation td)) p) p s"
      by simp
    then show ?thesis by (rule versioning_no_parse)
  qed
  show ?thesis
  proof (intro conjI)
    show "\<not> CALLED_AS_TRIGGER fcinfo \<longrightarrow>
          versioning env fcinfo s = (Inl NotCalledByTriggerManager, s)"
      using nt by (rule impI)
  next
    show "\<forall>td. fcinfo_context fcinfo = Some td \<longrightarrow>
         (\<not> (TRIGGER_FIRED_BEFORE (tg_event td) \<and> TRIGGER_FIRED_FOR_ROW (tg_event td)) \<longrightarrow>
            versioning env fcinfo s = (Inl MustBeFiredBeforeRow, s))
       \<and> (TRIGGER_FIRED_BEFORE (tg_event td) \<and> TRIGGER_FIRED_FOR_ROW (tg_event td) \<and>
          \<not> (TRIGGER_FIRED_BY_INSERT (tg_event td) \<or> TRIGGER_FIRED_BY_UPDATE (tg_event td) \<or>
             TRIGGER_FIRED_BY_DELETE (tg_event td)) \<longrightarrow>
            versioning env fcinfo s = (Inl MustBeFiredForInsertUpdateDelete, s))
       \<and> (TRIGGER_FIRED_BEFORE (tg_event td) \<and> TRIGGER_FIRED_FOR_ROW (tg_event td) \<and>
          (TRIGGER_FIRED_BY_INSERT (tg_event td) \<or> TRIGGER_FIRED_BY_UPDATE (tg_event td) \<or>
             TRIGGER_FIRED_BY_DELETE (tg_event td)) \<and>
          tgnargs (tg_trigger td) \<noteq> 3 \<longrightarrow>
            versioning env fcinfo s
              = (Inl (WrongNumberOfParameters (tgnargs (tg_trigger td))), s))"
      using checks by (intro allI impI)
  next
    show "parse_adjust_argument arg =
        (if map pg_ascii_tolower arg = ''true'' then Inr True
         else if map pg_ascii_tolower arg = ''false'' then Inr False
         else Inl (InvalidAdjustValue arg))"
      by (rule parse)
  next
    show "0 \<le> range_cmp_bounds lb ub \<longrightarrow>
        (\<forall>e. parse_adjust_argument arg = Inl e \<longrightarrow>
           adjust_system_period env lb ub arg rel s = (Inl e, s))"
      using adj1 by (intro allI impI)
  next
    show "range_cmp_bounds lb ub < 0 \<longrightarrow> adjust_system_period env lb ub arg rel s = (Inr ub, s)"
      using adj2 by (rule impI)
  next
    show "\<forall>td tc n e.
         \<not> modified_in_current_transaction env (tg_trigtuple td) \<and>
         closing_bound_conflict env td n p s \<and> parse_adjust_argument arg = Inl e \<longrightarrow>
           versioning_update env td tc n p h arg s = (Inl e, s) \<and>
           versioning_delete env td tc n p h arg s = (Inl e, s)"
      using perr by (intro allI impI)
  next
    show "\<forall>td tc e.
         TRIGGER_FIRED_BEFORE (tg_event td) \<and> TRIGGER_FIRED_FOR_ROW (tg_event td) \<and>
         \<not> TRIGGER_FIRED_BY_INSERT (tg_event td) \<and>
         (TRIGGER_FIRED_BY_UPDATE (tg_event td) \<or> TRIGGER_FIRED_BY_DELETE (tg_event td)) \<and>
         0 < SPI_fnumber (rd_att (tg_relation td)) p \<and>
         attndims (rd_att (tg_relation td) !
                     nat (SPI_fnumber (rd_att (tg_relation td)) p - 1)) = 0 \<and>
         get_period_typcache env
           (rd_att (tg_relation td) ! nat (SPI_fnumber (rd_att (tg_relation td)) p - 1))
           (tg_relation td) = Inr tc \<and>
         \<not> modified_in_current_transaction env (tg_trigtuple td) \<and>
         closing_bound_conflict env td (SPI_fnumber (rd_att (tg_relation td)) p) p s \<and>
         parse_adjust_argument arg = Inl e \<longrightarrow>
           versioning env \<lparr>fcinfo_context = Some (td\<lparr>tg_trigger := \<lparr>tgargs = [p, h, arg]\<rparr>\<rparr>)\<rparr> s
             = (Inl e, s)"
      using verr by (intro allI impI)
  next
    show "\<forall>td. TRIGGER_FIRED_BY_INSERT (tg_event td) \<or>
            modified_in_current_transaction env (tg_trigtuple td) \<or>
            \<not> closing_bound_conflict env td (SPI_fnumber (rd_att (tg_relation td)) p) p s \<longrightarrow>
         versioning env \<lparr>fcinfo_context = Some (td\<lparr>tg_trigger := \<lparr>tgargs = [p, h, arg]\<rparr>\<rparr>)\<rparr> s
           = versioning env \<lparr>fcinfo_context = Some (td\<lparr>tg_trigger := \<lparr>tgargs = [p, h, arg']\<rparr>\<rparr>)\<rparr> s"
      using indep by (intro allI impI)
  qed
qed


theorem C9_witness:
  "versioning (example_host 1000 9)
     (example_call 6 (example_row 0 ''a'' None) None ''true'') initial_session
     = (Inl MustBeFiredBeforeRow, initial_session)
   \<and> versioning (example_host 1000 9)
       \<lparr>fcinfo_context = Some ((example_trigdata 12 (example_row 0 ''a'' None) None ''true'')
          \<lparr>tg_trigger := \<lparr>tgargs = [''valid_time'', ''r_hist'']\<rparr>\<rparr>)\<rparr> initial_session
     = (Inl (WrongNumberOfParameters 2), initial_session)
   \<and> parse_adjust_argument ''FaLsE'' = Inr False
   \<and> versioning_delete (example_host 500 10)
        (example_trigdata 13
           (example_row 9 ''a'' (Some (NonEmptyRange (Bounded 1000 True) Unbounded))) None ''maybe'')
        example_typcache 3 ''valid_time'' ''r_hist'' ''maybe'' initial_session
     = (Inl (InvalidAdjustValue ''maybe''), initial_session)
   \<and> versioning (example_host 500 10)
       \<lparr>fcinfo_context = Some ((example_trigdata 13
            (example_row 9 ''a'' (Some (NonEmptyRange (Bounded 1000 True) Unbounded))) None ''true'')
          \<lparr>tg_trigger := \<lparr>tgargs = [''valid_time'', ''r_hist'', ''maybe'']\<rparr>\<rparr>)\<rparr> initial_session
     = (Inl (InvalidAdjustValue ''maybe''), initial_session)
   \<and> versioning (example_host 2000 10)
       \<lparr>fcinfo_context = Some ((example_trigdata 14
            (example_row 9 ''a'' (Some (NonEmptyRange (Bounded 1000 True) Unbounded)))
            (Some (example_row 0 ''b'' None)) ''true'')
          \<lparr>tg_trigger := \<lparr>tgargs = [''valid_time'', ''r_hist'', ''maybe'']\<rparr>\<rparr>)\<rparr> initial_session
     = versioning (example_host 2000 10)
       \<lparr>fcinfo_context = Some ((example_trigdata 14
            (example_row 9 ''a'' (Some (NonEmptyRange (Bounded 1000 True) Unbounded)))
            (Some (example_row 0 ''b'' None)) ''true'')
          \<lparr>tg_trigger := \<lparr>tgargs = [''valid_time'', ''r_hist'', ''true'']\<rparr>\<rparr>)\<rparr> initial_session
   \<and> fst (versioning (example_host 2000 10)
       \<lparr>fcinfo_context = Some ((example_trigdata 14
            (example_row 9 ''a'' (Some (NonEmptyRange (Bounded 1000 True) Unbounded)))
            (Some (example_row 0 ''b'' None)) ''true'')
          \<lparr>tg_trigger := \<lparr>tgargs = [''valid_time'', ''r_hist'', ''true'']\<rparr>\<rparr>)\<rparr> initial_session)
     = Inr (Some (example_row 0 ''b'' (Some (NonEmptyRange (Bounded 2000 True) Unbounded))))"
proof (intro conjI)
  have c: "fcinfo_context (example_call 6 (example_row 0 ''a'' None) None ''true'')
             = Some (example_trigdata 6 (example_row 0 ''a'' None) None ''true'')"
    by (simp add: example_call_def)
  have nb: "\<not> (TRIGGER_FIRED_BEFORE (tg_event (example_trigdata 6 (example_row 0 ''a'' None) None ''true''))
               \<and> TRIGGER_FIRED_FOR_ROW (tg_event (example_trigdata 6 (example_row 0 ''a'' None) None ''true'')))"
    by (simp add: example_trigdata_def trigger_event_defs)
  show "versioning (example_host 1000 9)
     (example_call 6 (example_row 0 ''a'' None) None ''true'') initial_session
     = (Inl MustBeFiredBeforeRow, initial_session)"
    by (rule C9_validation [THEN conjunct2, THEN conjunct1, rule_format, OF c,
          THEN conjunct1, rule_format, OF nb])
next
  let ?td = "(example_trigdata 12 (example_row 0 ''a'' None) None ''true'')
          \<lparr>tg_trigger := \<lparr>tgargs = [''valid_time'', ''r_hist'']\<rparr>\<rparr>"
  have c: "fcinfo_context \<lparr>fcinfo_context = Some ?td\<rparr> = Some ?td" by simp
  have ev: "TRIGGER_FIRED_BEFORE (tg_event ?td) \<and> TRIGGER_FIRED_FOR_ROW (tg_event ?td) \<and>
          (TRIGGER_FIRED_BY_INSERT (tg_event ?td) \<or> TRIGGER_FIRED_BY_UPDATE (tg_event ?td) \<or>
             TRIGGER_FIRED_BY_DELETE (tg_event ?td)) \<and>
          tgnargs (tg_trigger ?td) \<noteq> 3"
    by (simp add: example_trigdata_def trigger_event_defs tgnargs_def)
  have n: "tgnargs (tg_trigger ?td) = 2" by (simp add: tgnargs_def)
  show "versioning (example_host 1000 9) \<lparr>fcinfo_context = Some ?td\<rparr> initial_session
          = (Inl (WrongNumberOfParameters 2), initial_session)"
    using C9_validation [THEN conjunct2, THEN conjunct1, rule_format, OF c,
          THEN conjunct2, THEN conjunct2, rule_format, OF ev, of "example_host 1000 9" initial_session]
    by (simp only: n)
next
  show "parse_adjust_argument ''FaLsE'' = Inr False"
    using C9_validation [THEN conjunct2, THEN conjunct2, THEN conjunct1, of "''FaLsE''"]
    by (simp add: pg_ascii_tolower_def)
next
  let ?td = "example_trigdata 13
           (example_row 9 ''a'' (Some (NonEmptyRange (Bounded 1000 True) Unbounded))) None ''maybe''"
  have h: "\<not> modified_in_current_transaction (example_host 500 10) (tg_trigtuple ?td) \<and>
           closing_bound_conflict (example_host 500 10) ?td 3 ''valid_time'' initial_session \<and>
           parse_adjust_argument ''maybe'' = Inl (InvalidAdjustValue ''maybe'')"
    by (simp add: closing_bound_conflict_def versioning_defs host_defs example_defs)
  show "versioning_delete (example_host 500 10) ?td example_typcache 3 ''valid_time'' ''r_hist''
          ''maybe'' initial_session
        = (Inl (InvalidAdjustValue ''maybe''), initial_session)"
    by (rule C9_validation [THEN conjunct2, THEN conjunct2, THEN conjunct2, THEN conjunct2,
          THEN conjunct2, THEN conjunct1, rule_format, OF h, THEN conjunct2])
next
  let ?td = "example_trigdata 13
           (example_row 9 ''a'' (Some (NonEmptyRange (Bounded 1000 True) Unbounded))) None ''true''"
  let ?n = "SPI_fnumber (rd_att (tg_relation ?td)) ''valid_time''"
  have h: "TRIGGER_FIRED_BEFORE (tg_event ?td) \<and> TRIGGER_FIRED_FOR_ROW (tg_event ?td) \<and>
         \<not> TRIGGER_FIRED_BY_INSERT (tg_event ?td) \<and>
         (TRIGGER_FIRED_BY_UPDATE (tg_event ?td) \<or> TRIGGER_FIRED_BY_DELETE (tg_event ?td)) \<and>
         0 < ?n \<and>
         attndims (rd_att (tg_relation ?td) ! nat (?n - 1)) = 0 \<and>
         get_period_typcache (example_host 500 10)
           (rd_att (tg_relation ?td) ! nat (?n - 1)) (tg_relation ?td) = Inr example_typcache \<and>
         \<not> modified_in_current_transaction (example_host 500 10) (tg_trigtuple ?td) \<and>
         closing_bound_conflict (example_host 500 10) ?td ?n ''valid_time'' initial_session \<and>
         parse_adjust_argument ''maybe'' = Inl (InvalidAdjustValue ''maybe'')"
    by (simp add: closing_bound_conflict_def versioning_defs host_defs example_defs
          trigger_event_defs)
  show "versioning (example_host 500 10)
       \<lparr>fcinfo_context = Some (?td\<lparr>tg_trigger := \<lparr>tgargs = [''valid_time'', ''r_hist'', ''maybe'']\<rparr>\<rparr>)\<rparr>
       initial_session
     = (Inl (InvalidAdjustValue ''maybe''), initial_session)"
    by (rule C9_validation [THEN conjunct2, THEN conjunct2, THEN conjunct2, THEN conjunct2,
          THEN conjunct2, THEN conjunct2, THEN conjunct1, rule_format, OF h])
next
  let ?td = "example_trigdata 14
            (example_row 9 ''a'' (Some (NonEmptyRange (Bounded 1000 True) Unbounded)))
            (Some (example_row 0 ''b'' None)) ''true''"
  have h: "TRIGGER_FIRED_BY_INSERT (tg_event ?td) \<or>
           modified_in_current_transaction (example_host 2000 10) (tg_trigtuple ?td) \<or>
           \<not> closing_bound_conflict (example_host 2000 10) ?td
               (SPI_fnumber (rd_att (tg_relation ?td)) ''valid_time'') ''valid_time'' initial_session"
    by (simp add: closing_bound_conflict_def versioning_defs host_defs example_defs)
  show "versioning (example_host 2000 10)
       \<lparr>fcinfo_context = Some (?td\<lparr>tg_trigger := \<lparr>tgargs = [''valid_time'', ''r_hist'', ''maybe'']\<rparr>\<rparr>)\<rparr>
       initial_session
     = versioning (example_host 2000 10)
       \<lparr>fcinfo_context = Some (?td\<lparr>tg_trigger := \<lparr>tgargs = [''valid_time'', ''r_hist'', ''true'']\<rparr>\<rparr>)\<rparr>
       initial_session"
    by (rule C9_validation [THEN conjunct2, THEN conjunct2, THEN conjunct2, THEN conjunct2,
          THEN conjunct2, THEN conjunct2, THEN conjunct2, rule_format, OF h])
next
  show "fst (versioning (example_host 2000 10)
       \<lparr>fcinfo_context = Some ((example_trigdata 14
            (example_row 9 ''a'' (Some (NonEmptyRange (Bounded 1000 True) Unbounded)))
            (Some (example_row 0 ''b'' None)) ''true'')
          \<lparr>tg_trigger := \<lparr>tgargs = [''valid_time'', ''r_hist'', ''true'']\<rparr>\<rparr>)\<rparr> initial_session)
     = Inr (Some (example_row 0 ''b'' (Some (NonEmptyRange (Bounded 2000 True) Unbounded))))"
    by (simp add: versioning_defs host_defs example_defs trigger_event_defs Let_def upt_rec)
qed

subsection \<open>Rows modified in the current transaction\<close>

lemma length_heap_deform_tuple [simp]:
  "length (heap_deform_tuple tuple td) = length td"
  by (simp add: heap_deform_tuple_def del: upt_Suc)

lemma nth_heap_deform_tuple:
  "k < length td \<Longrightarrow> heap_deform_tuple tuple td ! k = heap_getattr tuple (Suc k)"
  by (simp add: heap_deform_tuple_def del: upt_Suc)

lemma SPI_getbinval_user_column:
  "k < length td \<Longrightarrow>
   SPI_getbinval tuple td (int k + 1)
     = (if k < length (t_values tuple) then t_values tuple ! k else None)"
  by (auto simp: SPI_getbinval_def heap_getattr_def nat_add_distrib)

lemma SPI_getbinval_modify_tuple:
  assumes "modify_tuple rel tuple n r = Inr t"
  shows "SPI_getbinval (t\<lparr>t_xmin := x\<rparr>) (rd_att rel) n = Some (RangeDatum r)"
    and "a \<noteq> n \<Longrightarrow>
         SPI_getbinval (t\<lparr>t_xmin := x\<rparr>) (rd_att rel) a = SPI_getbinval tuple (rd_att rel) a"
proof -
  from assms have n: "0 < n" "n \<le> int (length (rd_att rel))"
    and t: "t = \<lparr>t_xmin = 0,
                 t_values = (heap_deform_tuple tuple (rd_att rel))
                              [nat (n - 1) := Some (RangeTypePGetDatum r)]\<rparr>"
    by (auto simp: modify_tuple_def split: if_splits)
  define k where "k = nat (n - 1)"
  with n have k: "n = int k + 1" "k < length (rd_att rel)" by auto
  have tv: "t_values (t\<lparr>t_xmin := x\<rparr>)
              = (heap_deform_tuple tuple (rd_att rel))[k := Some (RangeDatum r)]"
    by (simp add: t k_def RangeTypePGetDatum_def)
  show "SPI_getbinval (t\<lparr>t_xmin := x\<rparr>) (rd_att rel) n = Some (RangeDatum r)"
    unfolding k(1) using k(2) by (simp add: SPI_getbinval_user_column tv)
  show "SPI_getbinval (t\<lparr>t_xmin := x\<rparr>) (rd_att rel) a = SPI_getbinval tuple (rd_att rel) a"
    if an: "a \<noteq> n"
  proof (cases "0 < a \<and> a \<le> int (length (rd_att rel))")
    case False
    then show ?thesis by (auto simp: SPI_getbinval_def)
  next
    case True
    define j where "j = nat (a - 1)"
    with True have j: "a = int j + 1" "j < length (rd_att rel)" by auto
    from an j k have jk: "j \<noteq> k" by auto
    have "SPI_getbinval (t\<lparr>t_xmin := x\<rparr>) (rd_att rel) a
            = heap_deform_tuple tuple (rd_att rel) ! j"
      unfolding j(1) using j(2) jk by (simp add: SPI_getbinval_user_column tv)
    also have "\<dots> = heap_getattr tuple (Suc j)"
      using j(2) by (rule nth_heap_deform_tuple)
    also have "\<dots> = SPI_getbinval tuple (rd_att rel) a"
      unfolding j(1) using j(2) by (simp add: SPI_getbinval_user_column heap_getattr_def)
    finally show ?thesis .
  qed
qed

lemma versioning_insert_period:
  assumes "versioning_insert env td tc n s = (Inr (Some row), s')"
      and "get_system_time (GetCurrentTransactionStartTimestamp env)
             (GetCurrentSubTransactionId env) (temporal_contexts s) = Some now"
  shows "SPI_getbinval (row\<lparr>t_xmin := x\<rparr>) (rd_att (tg_relation td)) n
           = Some (RangeDatum (NonEmptyRange (Bounded now True) Unbounded))"
    and "s' = s"
    and "modify_tuple (tg_relation td) (tg_trigtuple td) n
           (NonEmptyRange (Bounded now True) Unbounded) = Inr row"
proof -
  from assms have m: "modify_tuple (tg_relation td) (tg_trigtuple td) n
                        (NonEmptyRange (Bounded now True) Unbounded) = Inr row"
    and s: "s' = s"
    by (auto simp: versioning_insert_def make_range_current Let_def split: sum.splits)
  show "s' = s" by (rule s)
  show "modify_tuple (tg_relation td) (tg_trigtuple td) n
           (NonEmptyRange (Bounded now True) Unbounded) = Inr row" by (rule m)
  show "SPI_getbinval (row\<lparr>t_xmin := x\<rparr>) (rd_att (tg_relation td)) n
           = Some (RangeDatum (NonEmptyRange (Bounded now True) Unbounded))"
    by (rule SPI_getbinval_modify_tuple(1) [OF m])
qed

text \<open>
  Claim C4, as stated, fails in its round trip: the update hands the proposed new row
  back as it is, so when the statement assigns the period column, the stored period is
  the assigned one and not that of the insert.
\<close>

theorem C4_counterexample:
  "versioning_insert (example_host 1000 9)
      (example_trigdata 12 (example_row 0 ''a'' None) None ''true'') example_typcache 3
      initial_session
     = (Inr (Some (example_row 0 ''a'' (Some (NonEmptyRange (Bounded 1000 True) Unbounded)))),
        initial_session)
   \<and> versioning_update (example_host 1000 9)
      (example_trigdata 14
         (example_row 9 ''a'' (Some (NonEmptyRange (Bounded 1000 True) Unbounded)))
         (Some (example_row 0 ''b'' (Some (NonEmptyRange (Bounded 5 True) Unbounded)))) ''true'')
      example_typcache 3 ''valid_time'' ''r_hist'' ''true'' initial_session
     = (Inr (Some (example_row 0 ''b'' (Some (NonEmptyRange (Bounded 5 True) Unbounded)))),
        initial_session)"
  by (simp add: versioning_defs host_defs example_defs Let_def upt_rec)

text \<open>
  Claim C4, amended. When the old row was created or last modified by the current
  transaction, an update returns the proposed new row and a delete the old row, both
  unchanged, and the session is unchanged: nothing is archived and no period is
  computed. So when a row is inserted at \<open>now\<close>, stored by transaction \<open>x\<close>, and
  then updated by that transaction, the stored row is the proposed new row; its
  period is the one the insert set, from \<open>now\<close> on, whenever the update statement
  leaves the period column as stored.
\<close>

theorem C4_same_transaction_skip:
  "(modified_in_current_transaction env (tg_trigtuple trigdata) \<longrightarrow>
      versioning_update env trigdata tc n name hist adj s = (Inr (tg_newtuple trigdata), s)
      \<and> versioning_delete env trigdata tc n name hist adj s
          = (Inr (Some (tg_trigtuple trigdata)), s))
   \<and> (get_system_time (GetCurrentTransactionStartTimestamp env0)
         (GetCurrentSubTransactionId env0) (temporal_contexts s0) = Some now
       \<and> versioning_insert env0 td0 tc n s0 = (Inr (Some row), s1)
       \<and> TransactionIdIsCurrentTransactionId env x
       \<and> tg_trigtuple trigdata = row\<lparr>t_xmin := x\<rparr>
       \<and> tg_relation trigdata = tg_relation td0
       \<and> tg_newtuple trigdata = Some new
       \<and> SPI_getbinval new (rd_att (tg_relation td0)) n
           = SPI_getbinval (row\<lparr>t_xmin := x\<rparr>) (rd_att (tg_relation td0)) n \<longrightarrow>
      s1 = s0
      \<and> versioning_update env trigdata tc n name hist adj s = (Inr (Some new), s)
      \<and> SPI_getbinval new (rd_att (tg_relation td0)) n
          = Some (RangeDatum (NonEmptyRange (Bounded now True) Unbounded)))"
proof (intro conjI impI)
  assume "modified_in_current_transaction env (tg_trigtuple trigdata)"
  then show "versioning_update env trigdata tc n name hist adj s = (Inr (tg_newtuple trigdata), s)"
    and "versioning_delete env trigdata tc n name hist adj s
          = (Inr (Some (tg_trigtuple trigdata)), s)"
    by (simp_all add: versioning_update_def versioning_delete_def)
next
  assume a: "get_system_time (GetCurrentTransactionStartTimestamp env0)
         (GetCurrentSubTransactionId env0) (temporal_contexts s0) = Some now
       \<and> versioning_insert env0 td0 tc n s0 = (Inr (Some row), s1)
       \<and> TransactionIdIsCurrentTransactionId env x
       \<and> tg_trigtuple trigdata = row\<lparr>t_xmin := x\<rparr>
       \<and> tg_relation trigdata = tg_relation td0
       \<and> tg_newtuple trigdata = Some new
       \<and> SPI_getbinval new (rd_att (tg_relation td0)) n
           = SPI_getbinval (row\<lparr>t_xmin := x\<rparr>) (rd_att (tg_relation td0)) n"
  then have now: "get_system_time (GetCurrentTransactionStartTimestamp env0)
         (GetCurrentSubTransactionId env0) (temporal_contexts s0) = Some now"
    and ins: "versioning_insert env0 td0 tc n s0 = (Inr (Some row), s1)"
    and cur: "TransactionIdIsCurrentTransactionId env x"
    and old: "tg_trigtuple trigdata = row\<lparr>t_xmin := x\<rparr>"
    and new: "tg_newtuple trigdata = Some new"
    and same: "SPI_getbinval new (rd_att (tg_relation td0)) n
           = SPI_getbinval (row\<lparr>t_xmin := x\<rparr>) (rd_att (tg_relation td0)) n"
    by simp_all
  show "s1 = s0" by (rule versioning_insert_period(2) [OF ins now])
  show "versioning_update env trigdata tc n name hist adj s = (Inr (Some new), s)"
    using cur old new
    by (simp add: versioning_update_def modified_in_current_transaction_def)
  show "SPI_getbinval new (rd_att (tg_relation td0)) n
          = Some (RangeDatum (NonEmptyRange (Bounded now True) Unbounded))"
    using same versioning_insert_period(1) [OF ins now, of x] by simp
qed

theorem C4_witness:
  "versioning_update (example_host 1500 9)
      (example_trigdata 14
         (example_row 9 ''a'' (Some (NonEmptyRange (Bounded 1000 True) Unbounded)))
         (Some (example_row 0 ''b'' (Some (NonEmptyRange (Bounded 1000 True) Unbounded)))) ''true'')
      example_typcache 3 ''valid_time'' ''r_hist'' ''true'' initial_session
     = (Inr (Some (example_row 0 ''b'' (Some (NonEmptyRange (Bounded 1000 True) Unbounded)))),
        initial_session)"
proof -
  have m: "modified_in_current_transaction (example_host 1500 9)
             (tg_trigtuple (example_trigdata 14
                (example_row 9 ''a'' (Some (NonEmptyRange (Bounded 1000 True) Unbounded)))
                (Some (example_row 0 ''b'' (Some (NonEmptyRange (Bounded 1000 True) Unbounded))))
                ''true''))"
    by (simp add: modified_in_current_transaction_def example_defs)
  show ?thesis
    using C4_same_transaction_skip [THEN conjunct1, rule_format, OF m, THEN conjunct1,
            of example_typcache 3 "''valid_time''" "''r_hist''" "''true''" initial_session]
    by (simp add: example_trigdata_def)
qed

subsection \<open>The metadata cache\<close>

lemma common_attributes_spec:
  "common_attributes rel hrel sz attrs i acc = Inr res \<Longrightarrow>
   res = acc @ spec_common_columns (rd_att hrel) attrs i"
proof (induction attrs arbitrary: i acc)
  case Nil
  then show ?case by simp
next
  case (Cons attr rest)
  show ?case
  proof (cases "\<not> attisdropped attr \<and> 0 \<le> SPI_fnumber (rd_att hrel) (attname attr)")
    case False
    with Cons.prems have "common_attributes rel hrel sz rest (i + 1) acc = Inr res"
      by (auto simp: Let_def split: if_splits)
    from Cons.IH [OF this] False show ?thesis by auto
  next
    case True
    with Cons.prems
    have "common_attributes rel hrel sz rest (i + 1)
            (acc @ [(i + 1, SPI_fnumber (rd_att hrel) (attname attr), attname attr)]) = Inr res"
      by (auto simp: Let_def split: if_splits sum.splits)
    from Cons.IH [OF this] True show ?thesis by simp
  qed
qed

lemma spec_common_columns_sound:
  "(a, h, nm) \<in> set (spec_common_columns htd td i) \<Longrightarrow>
   \<exists>j < length td. a = i + int j + 1 \<and> nm = attname (td ! j) \<and> \<not> attisdropped (td ! j)
      \<and> h = SPI_fnumber htd nm \<and> 0 \<le> h"
proof (induction td arbitrary: i)
  case Nil
  then show ?case by simp
next
  case (Cons attr rest)
  from Cons.prems consider
    (hd) "(a, h, nm) = (i + 1, SPI_fnumber htd (attname attr), attname attr)"
         "\<not> attisdropped attr" "0 \<le> SPI_fnumber htd (attname attr)"
    | (tl) "(a, h, nm) \<in> set (spec_common_columns htd rest (i + 1))"
    by (auto split: if_splits)
  then show ?case
  proof cases
    case hd
    then show ?thesis by (intro exI [of _ 0]) simp
  next
    case tl
    from Cons.IH [OF this] obtain j where "j < length rest" "a = i + 1 + int j + 1"
      "nm = attname (rest ! j)" "\<not> attisdropped (rest ! j)" "h = SPI_fnumber htd nm" "0 \<le> h"
      by blast
    then show ?thesis by (intro exI [of _ "Suc j"]) simp
  qed
qed

lemma spec_common_columns_complete:
  "j < length td \<Longrightarrow> \<not> attisdropped (td ! j) \<Longrightarrow> 0 \<le> SPI_fnumber htd (attname (td ! j)) \<Longrightarrow>
   (i + int j + 1, SPI_fnumber htd (attname (td ! j)), attname (td ! j))
     \<in> set (spec_common_columns htd td i)"
proof (induction td arbitrary: i j)
  case Nil
  then show ?case by simp
next
  case (Cons attr rest)
  show ?case
  proof (cases j)
    case 0
    with Cons.prems show ?thesis by simp
  next
    case (Suc k)
    with Cons.prems have "(i + 1 + int k + 1, SPI_fnumber htd (attname (rest ! k)), attname (rest ! k))
        \<in> set (spec_common_columns htd rest (i + 1))"
      by (intro Cons.IH) simp_all
    with Suc show ?thesis by (simp add: add.assoc)
  qed
qed


lemma fill_versioning_hash_entry_Inr:
  assumes "fill_versioning_hash_entry env e1 rel hrel (rd_att rel) pname = Inr e2"
  shows "e2 = rebuilt_entry e1 rel hrel" and "0 \<le> SPI_fnumber (rd_att hrel) pname"
proof -
  from assms show p: "0 \<le> SPI_fnumber (rd_att hrel) pname"
    by (auto simp: fill_versioning_hash_entry_def Let_def split: if_splits)
  from assms p obtain common where
    c: "common_attributes rel hrel (min (int (length (rd_att rel))) (int (length (rd_att hrel))))
          (rd_att rel) 0 [] = Inr common"
    by (auto simp: fill_versioning_hash_entry_def Let_def split: if_splits sum.splits)
  from common_attributes_spec [OF c]
  have eq: "common = spec_common_columns (rd_att hrel) (rd_att rel) 0" by simp
  from assms p c show "e2 = rebuilt_entry e1 rel hrel"
    unfolding eq [symmetric]
    by (auto simp: fill_versioning_hash_entry_def rebuilt_entry_def Let_def eq [symmetric]
          split: if_splits)
qed

lemma rebuilt_entry_consistent:
  assumes "tupdesc e1 = None" "history_tupdesc e1 = None"
  shows "entry_consistent (rebuilt_entry e1 rel hrel)"
  using assms by (simp add: entry_consistent_def rebuilt_entry_def Let_def)

lemma free_cached_data_invalid:
  "natts (snd (free_cached_data env e)) = - 1"
  "tupdesc (snd (free_cached_data env e)) = None"
  "history_tupdesc (snd (free_cached_data env e)) = None"
  "attnums (snd (free_cached_data env e)) = None"
  "fst (free_cached_data env e) = None \<Longrightarrow> insert_history_plan (snd (free_cached_data env e)) = None"
  by (auto simp: free_cached_data_def Let_def split: if_splits)


lemma execute_history_plan_Inr:
  assumes "execute_history_plan env e tuple td s = (Inr u, s')"
  shows "(natts e = 0 \<and> s' = s) \<or>
         (\<exists>nums plan. attnums e = Some nums \<and> insert_history_plan e = Some plan \<and>
            0 < natts e \<and> natts e \<le> int (length nums) \<and>
            s' = s\<lparr>history_rows := history_rows s @
                     [(plan, map (SPI_getbinval tuple td) (take (nat (natts e)) nums))]\<rparr>)"
  using assms
  by (auto simp: execute_history_plan_def Let_def
        split: if_splits option.splits sum.splits prod.splits)

lemma execute_history_plan_frame:
  "versioning_cache (snd (execute_history_plan env e tuple td s)) = versioning_cache s"
  "warnings (snd (execute_history_plan env e tuple td s)) = warnings s"
  "temporal_contexts (snd (execute_history_plan env e tuple td s)) = temporal_contexts s"
  "integer_datetimes (snd (execute_history_plan env e tuple td s)) = integer_datetimes s"
  "integer_datetimes_set (snd (execute_history_plan env e tuple td s)) = integer_datetimes_set s"
  by (auto simp: execute_history_plan_def Let_def
        split: if_splits option.splits sum.splits prod.splits)

lemma execute_history_plan_Inl:
  "execute_history_plan env e tuple td s = (Inl err, s') \<Longrightarrow>
   s' = s \<or> (\<exists>row. s' = s\<lparr>history_rows := history_rows s @ [row]\<rparr>)"
  by (auto simp: execute_history_plan_def Let_def
        split: if_splits option.splits sum.splits prod.splits)

text \<open>The two paths of \<open>insert_history_row\<close>: the cached entry is reused, or rebuilt.\<close>

lemma insert_history_row_reuse:
  assumes "heap_openrv env hname = Some hrel"
      and "versioning_cache s (rd_id rel) = Some e"
      and "cached_data_invalid e rel hrel = Some False"
  shows "insert_history_row env tuple rel hname pname s =
           (if SPI_connect env \<noteq> SPI_OK_CONNECT
            then (Inl (SPI_failed ''SPI_connect'' (SPI_connect env)), s)
            else execute_history_plan env e tuple (rd_att rel) s)"
proof -
  have "store_hash_entry (rd_id rel) e s = s"
    using assms(2) by (simp add: store_hash_entry_def fun_upd_idem)
  then show ?thesis
    using assms
    by (simp add: insert_history_row_def lookup_versioning_hash_entry_def Let_def)
qed

lemma insert_history_row_rebuild:
  assumes "heap_openrv env hname = Some hrel"
      and "case versioning_cache s (rd_id rel) of
             None \<Rightarrow> True
           | Some e \<Rightarrow> cached_data_invalid e rel hrel = Some True"
  shows "insert_history_row env tuple rel hname pname s =
           (let (freed, e1) = entry_before_rebuild env (versioning_cache s (rd_id rel)) in
            case freed of
              Some err \<Rightarrow> (Inl err, store_hash_entry (rd_id rel) e1 s)
            | None \<Rightarrow>
                if SPI_connect env \<noteq> SPI_OK_CONNECT
                then (Inl (SPI_failed ''SPI_connect'' (SPI_connect env)),
                      store_hash_entry (rd_id rel) e1 s)
                else
                  (case fill_versioning_hash_entry env e1 rel hrel (rd_att rel) pname of
                     Inl err \<Rightarrow> (Inl err, store_hash_entry (rd_id rel) e1 s)
                   | Inr e2 \<Rightarrow>
                       execute_history_plan env e2 tuple (rd_att rel)
                         (store_hash_entry (rd_id rel) e2 s)))"
  using assms
  by (auto simp: insert_history_row_def lookup_versioning_hash_entry_def Let_def
        entry_before_rebuild_def split: option.splits prod.splits)


lemma versioning_cache_store_hash_entry [simp]:
  "versioning_cache (store_hash_entry k e s) = (versioning_cache s)(k \<mapsto> e)"
  by (simp add: store_hash_entry_def)

lemma entry_before_rebuild_invalid:
  "natts (snd (entry_before_rebuild env c)) = - 1"
  "tupdesc (snd (entry_before_rebuild env c)) = None"
  "history_tupdesc (snd (entry_before_rebuild env c)) = None"
  "attnums (snd (entry_before_rebuild env c)) = None"
  "fst (entry_before_rebuild env c) = None \<Longrightarrow>
     insert_history_plan (snd (entry_before_rebuild env c)) = None"
  by (auto simp: entry_before_rebuild_def lookup_versioning_hash_entry_def
        free_cached_data_invalid split: option.splits)

lemma insert_history_row_rebuild_cache:
  assumes o: "heap_openrv env hname = Some hrel"
      and st: "case versioning_cache s (rd_id rel) of
             None \<Rightarrow> True
           | Some e \<Rightarrow> cached_data_invalid e rel hrel = Some True"
  shows "(versioning_cache (snd (insert_history_row env tuple rel hname pname s))
            = (versioning_cache s)(rd_id rel \<mapsto> snd (entry_before_rebuild env (versioning_cache s (rd_id rel))))
          \<and> (\<exists>err. fst (insert_history_row env tuple rel hname pname s) = Inl err))
         \<or> (versioning_cache (snd (insert_history_row env tuple rel hname pname s))
            = (versioning_cache s)(rd_id rel \<mapsto>
                 rebuilt_entry (snd (entry_before_rebuild env (versioning_cache s (rd_id rel)))) rel hrel)
          \<and> fst (entry_before_rebuild env (versioning_cache s (rd_id rel))) = None
          \<and> SPI_connect env = SPI_OK_CONNECT
          \<and> 0 \<le> SPI_fnumber (rd_att hrel) pname)"
proof -
  obtain freed e1 where eb: "entry_before_rebuild env (versioning_cache s (rd_id rel)) = (freed, e1)"
    by (cases "entry_before_rebuild env (versioning_cache s (rd_id rel))")
  note r = insert_history_row_rebuild [OF o st, of tuple pname, unfolded eb, simplified]
  show ?thesis
  proof (cases freed)
    case (Some err)
    with r show ?thesis by (simp add: eb)
  next
    case None
    show ?thesis
    proof (cases "SPI_connect env = SPI_OK_CONNECT")
      case False
      with r None show ?thesis by (simp add: eb)
    next
      case True
      show ?thesis
      proof (cases "fill_versioning_hash_entry env e1 rel hrel (rd_att rel) pname")
        case (Inl err)
        with r None True show ?thesis by (simp add: eb)
      next
        case (Inr e2)
        from fill_versioning_hash_entry_Inr [OF Inr]
        have e2: "e2 = rebuilt_entry e1 rel hrel" and p: "0 \<le> SPI_fnumber (rd_att hrel) pname"
          by simp_all
        from r None True Inr
        have "insert_history_row env tuple rel hname pname s
                = execute_history_plan env e2 tuple (rd_att rel) (store_hash_entry (rd_id rel) e2 s)"
          by simp
        then have "versioning_cache (snd (insert_history_row env tuple rel hname pname s))
                     = (versioning_cache s)(rd_id rel \<mapsto> e2)"
          by (simp add: execute_history_plan_frame)
        with e2 p None True show ?thesis by (simp add: eb)
      qed
    qed
  qed
qed

lemma insert_history_row_reuse_cache:
  assumes "heap_openrv env hname = Some hrel"
      and "versioning_cache s (rd_id rel) = Some e"
      and "cached_data_invalid e rel hrel = Some False"
  shows "versioning_cache (snd (insert_history_row env tuple rel hname pname s)) = versioning_cache s"
  unfolding insert_history_row_reuse [OF assms]
  by (simp add: execute_history_plan_frame)

lemma cached_data_invalid_snapshots:
  "tupdesc e = Some td \<Longrightarrow> history_tupdesc e = Some htd \<Longrightarrow>
   cached_data_invalid e rel hrel
     = Some (natts e = - 1 \<or> rd_id hrel \<noteq> history_relid e \<or> rd_att rel \<noteq> td \<or> rd_att hrel \<noteq> htd)"
  by (simp add: cached_data_invalid_def)

lemma cached_data_invalid_marked:
  "natts e = - 1 \<Longrightarrow> cached_data_invalid e rel hrel = Some True"
  by (simp add: cached_data_invalid_def)



text \<open>
  When \<open>fill_versioning_hash_entry\<close> succeeds and when it fails: every common column
  has passed \<^verbatim>\<open>check_attr_type\<close>, and the period column is in the history relation.
\<close>

lemma common_attributes_checked:
  "common_attributes rel hrel sz attrs i acc = Inr res \<Longrightarrow>
   \<forall>attr \<in> set attrs.
     \<not> attisdropped attr \<and> 0 \<le> SPI_fnumber (rd_att hrel) (attname attr) \<longrightarrow>
     check_attr_type attr (rd_att hrel ! nat (SPI_fnumber (rd_att hrel) (attname attr) - 1))
       rel hrel = Inr ()"
proof (induction attrs arbitrary: i acc)
  case Nil
  then show ?case by simp
next
  case (Cons attr rest)
  show ?case
  proof (cases "\<not> attisdropped attr \<and> 0 \<le> SPI_fnumber (rd_att hrel) (attname attr)")
    case False
    with Cons.prems have "common_attributes rel hrel sz rest (i + 1) acc = Inr res"
      by (auto simp: Let_def split: if_splits)
    from Cons.IH [OF this] False show ?thesis by auto
  next
    case True
    with Cons.prems
    have c: "check_attr_type attr (rd_att hrel ! nat (SPI_fnumber (rd_att hrel) (attname attr) - 1))
               rel hrel = Inr ()"
      and r: "common_attributes rel hrel sz rest (i + 1)
            (acc @ [(i + 1, SPI_fnumber (rd_att hrel) (attname attr), attname attr)]) = Inr res"
      by (auto simp: Let_def split: if_splits sum.splits)
    from Cons.IH [OF r] c show ?thesis by simp
  qed
qed

lemma common_attributes_Inr:
  "\<forall>attr \<in> set attrs.
     \<not> attisdropped attr \<and> 0 \<le> SPI_fnumber (rd_att hrel) (attname attr) \<longrightarrow>
     check_attr_type attr (rd_att hrel ! nat (SPI_fnumber (rd_att hrel) (attname attr) - 1))
       rel hrel = Inr () \<Longrightarrow>
   int (length acc) + int (length (spec_common_columns (rd_att hrel) attrs i)) \<le> sz \<Longrightarrow>
   common_attributes rel hrel sz attrs i acc = Inr (acc @ spec_common_columns (rd_att hrel) attrs i)"
proof (induction attrs arbitrary: i acc)
  case Nil
  then show ?case by simp
next
  case (Cons attr rest)
  show ?case
  proof (cases "\<not> attisdropped attr \<and> 0 \<le> SPI_fnumber (rd_att hrel) (attname attr)")
    case False
    from Cons.prems False have "common_attributes rel hrel sz rest (i + 1) acc
             = Inr (acc @ spec_common_columns (rd_att hrel) rest (i + 1))"
      by (intro Cons.IH) auto
    with False show ?thesis by (auto simp: Let_def)
  next
    case True
    let ?e = "(i + 1, SPI_fnumber (rd_att hrel) (attname attr), attname attr)"
    from Cons.prems(1) True
    have c: "check_attr_type attr (rd_att hrel ! nat (SPI_fnumber (rd_att hrel) (attname attr) - 1))
               rel hrel = Inr ()" by simp
    from Cons.prems(2) True have sz: "int (length acc) < sz" by simp
    from Cons.prems True have "common_attributes rel hrel sz rest (i + 1) (acc @ [?e])
             = Inr ((acc @ [?e]) @ spec_common_columns (rd_att hrel) rest (i + 1))"
      by (intro Cons.IH) auto
    with True c sz show ?thesis by (simp add: Let_def)
  qed
qed

lemma fill_versioning_hash_entry_mismatch:
  assumes "attr \<in> set (rd_att rel)" "\<not> attisdropped attr"
      and "0 \<le> SPI_fnumber (rd_att hrel) (attname attr)"
      and "check_attr_type attr (rd_att hrel ! nat (SPI_fnumber (rd_att hrel) (attname attr) - 1))
             rel hrel \<noteq> Inr ()"
  shows "\<exists>err. fill_versioning_hash_entry env e1 rel hrel (rd_att rel) pname = Inl err"
proof (cases "fill_versioning_hash_entry env e1 rel hrel (rd_att rel) pname")
  case (Inl err)
  then show ?thesis by simp
next
  case (Inr e2)
  then obtain common where
    "common_attributes rel hrel (min (int (length (rd_att rel))) (int (length (rd_att hrel))))
       (rd_att rel) 0 [] = Inr common"
    by (auto simp: fill_versioning_hash_entry_def Let_def split: if_splits sum.splits)
  from common_attributes_checked [OF this] assms show ?thesis by blast
qed

lemma fill_versioning_hash_entry_succeeds:
  assumes p: "0 \<le> SPI_fnumber (rd_att hrel) pname"
      and c: "\<forall>attr \<in> set (rd_att rel).
                \<not> attisdropped attr \<and> 0 \<le> SPI_fnumber (rd_att hrel) (attname attr) \<longrightarrow>
                check_attr_type attr
                  (rd_att hrel ! nat (SPI_fnumber (rd_att hrel) (attname attr) - 1)) rel hrel = Inr ()"
      and sz: "int (length (spec_common_columns (rd_att hrel) (rd_att rel) 0))
                 \<le> min (int (length (rd_att rel))) (int (length (rd_att hrel)))"
      and spi: "spec_common_columns (rd_att hrel) (rd_att rel) 0 \<noteq> [] \<longrightarrow>
                  SPI_prepare_ok env \<and> SPI_keepplan env = 0"
  shows "fill_versioning_hash_entry env e1 rel hrel (rd_att rel) pname
           = Inr (rebuilt_entry e1 rel hrel)"
proof -
  from sz have "int (length ([] :: (int \<times> int \<times> string) list)) +
                int (length (spec_common_columns (rd_att hrel) (rd_att rel) 0))
                  \<le> min (int (length (rd_att rel))) (int (length (rd_att hrel)))" by simp
  from common_attributes_Inr [OF c this]
  have ca: "common_attributes rel hrel (min (int (length (rd_att rel))) (int (length (rd_att hrel))))
              (rd_att rel) 0 [] = Inr (spec_common_columns (rd_att hrel) (rd_att rel) 0)"
    by simp
  from p ca spi show ?thesis
    by (simp add: fill_versioning_hash_entry_def rebuilt_entry_def Let_def)
qed

text \<open>
  Claim C5. Let the history relation be found. The test of the cached entry says
  "invalid" exactly when the entry is marked invalid (\<open>natts = -1\<close>), the cached
  identity of the history relation differs from the live one, or one of the two cached
  schema snapshots differs from the live schema. When the entry is present and passes
  the test, nothing is rebuilt: the call executes the cached plan and leaves the cache
  as it is. When the entry is new or fails the test, it is first marked invalid with
  its snapshots and column mapping discarded (and its plan, unless freeing the plan
  fails); call this entry \<open>e1\<close>. If freeing the plan, connecting, or the rebuild
  \<^verbatim>\<open>fill_versioning_hash_entry\<close> fails, the call fails with that error and leaves
  \<open>e1\<close> in the cache, which every later test finds invalid, so the next call rebuilds
  again. The rebuild fails when the history relation lacks the period column and when
  a common column has another type in the history relation. Only if the rebuild
  succeeds is the entry replaced, by the one fully rebuilt from the live schemas,
  which is consistent and marked valid, and the call goes on to execute its plan; the
  rebuild succeeds when the period column is there, the common columns agree in type
  and fit the arrays, and the plan can be prepared and kept.
\<close>

theorem C5_cache_rebuild:
  assumes o: "heap_openrv env hname = Some hrel"
  shows
    "(\<forall>e td htd. tupdesc e = Some td \<and> history_tupdesc e = Some htd \<longrightarrow>
        cached_data_invalid e rel hrel
          = Some (natts e = - 1 \<or> rd_id hrel \<noteq> history_relid e \<or> rd_att rel \<noteq> td \<or>
                  rd_att hrel \<noteq> htd))
     \<and> (\<forall>e. natts e = - 1 \<longrightarrow> cached_data_invalid e rel hrel = Some True)
     \<and> (\<forall>e. versioning_cache s (rd_id rel) = Some e \<and> cached_data_invalid e rel hrel = Some False \<longrightarrow>
           insert_history_row env tuple rel hname pname s
             = (if SPI_connect env \<noteq> SPI_OK_CONNECT
                then (Inl (SPI_failed ''SPI_connect'' (SPI_connect env)), s)
                else execute_history_plan env e tuple (rd_att rel) s)
           \<and> versioning_cache (snd (insert_history_row env tuple rel hname pname s))
               = versioning_cache s)
     \<and> (\<forall>freed e1.
          (case versioning_cache s (rd_id rel) of
             None \<Rightarrow> True
           | Some e \<Rightarrow> cached_data_invalid e rel hrel = Some True) \<and>
          entry_before_rebuild env (versioning_cache s (rd_id rel)) = (freed, e1) \<longrightarrow>
            natts e1 = - 1 \<and> tupdesc e1 = None \<and> history_tupdesc e1 = None \<and> attnums e1 = None
            \<and> (freed = None \<longrightarrow> insert_history_plan e1 = None)
            \<and> (\<forall>rel' hrel'. cached_data_invalid e1 rel' hrel' = Some True)
            \<and> insert_history_row env tuple rel hname pname s
                = (case freed of
                     Some err \<Rightarrow> (Inl err, store_hash_entry (rd_id rel) e1 s)
                   | None \<Rightarrow>
                       if SPI_connect env \<noteq> SPI_OK_CONNECT
                       then (Inl (SPI_failed ''SPI_connect'' (SPI_connect env)),
                             store_hash_entry (rd_id rel) e1 s)
                       else
                         (case fill_versioning_hash_entry env e1 rel hrel (rd_att rel) pname of
                            Inl err \<Rightarrow> (Inl err, store_hash_entry (rd_id rel) e1 s)
                          | Inr e2 \<Rightarrow>
                              execute_history_plan env e2 tuple (rd_att rel)
                                (store_hash_entry (rd_id rel) e2 s)))
            \<and> (\<forall>e2. fill_versioning_hash_entry env e1 rel hrel (rd_att rel) pname = Inr e2 \<longrightarrow>
                  e2 = rebuilt_entry e1 rel hrel \<and> entry_consistent e2 \<and> natts e2 \<noteq> - 1 \<and>
                  versioning_cache
                    (snd (execute_history_plan env e2 tuple (rd_att rel)
                            (store_hash_entry (rd_id rel) e2 s)))
                    = (versioning_cache s)(rd_id rel \<mapsto> e2))
            \<and> (SPI_fnumber (rd_att hrel) pname < 0 \<longrightarrow>
                  fill_versioning_hash_entry env e1 rel hrel (rd_att rel) pname
                    = Inl (HistoryLacksPeriodColumn (rd_relname hrel) pname))
            \<and> (\<forall>attr \<in> set (rd_att rel).
                  \<not> attisdropped attr \<and> 0 \<le> SPI_fnumber (rd_att hrel) (attname attr) \<and>
                  check_attr_type attr
                    (rd_att hrel ! nat (SPI_fnumber (rd_att hrel) (attname attr) - 1)) rel hrel
                    \<noteq> Inr () \<longrightarrow>
                  (\<exists>err. fill_versioning_hash_entry env e1 rel hrel (rd_att rel) pname = Inl err))
            \<and> (0 \<le> SPI_fnumber (rd_att hrel) pname \<and>
               (\<forall>attr \<in> set (rd_att rel).
                  \<not> attisdropped attr \<and> 0 \<le> SPI_fnumber (rd_att hrel) (attname attr) \<longrightarrow>
                  check_attr_type attr
                    (rd_att hrel ! nat (SPI_fnumber (rd_att hrel) (attname attr) - 1)) rel hrel
                    = Inr ()) \<and>
               int (length (spec_common_columns (rd_att hrel) (rd_att rel) 0))
                 \<le> min (int (length (rd_att rel))) (int (length (rd_att hrel))) \<and>
               (spec_common_columns (rd_att hrel) (rd_att rel) 0 \<noteq> [] \<longrightarrow>
                  SPI_prepare_ok env \<and> SPI_keepplan env = 0) \<longrightarrow>
                  fill_versioning_hash_entry env e1 rel hrel (rd_att rel) pname
                    = Inr (rebuilt_entry e1 rel hrel)))"
proof (intro conjI allI impI ballI)
  fix e :: VersioningHashEntry and td htd
  assume "tupdesc e = Some td \<and> history_tupdesc e = Some htd"
  then show "cached_data_invalid e rel hrel
          = Some (natts e = - 1 \<or> rd_id hrel \<noteq> history_relid e \<or> rd_att rel \<noteq> td \<or>
                  rd_att hrel \<noteq> htd)"
    by (simp add: cached_data_invalid_snapshots)
next
  fix e :: VersioningHashEntry
  assume "natts e = - 1"
  then show "cached_data_invalid e rel hrel = Some True"
    by (rule cached_data_invalid_marked)
next
  fix e
  assume a: "versioning_cache s (rd_id rel) = Some e \<and> cached_data_invalid e rel hrel = Some False"
  show "insert_history_row env tuple rel hname pname s
             = (if SPI_connect env \<noteq> SPI_OK_CONNECT
                then (Inl (SPI_failed ''SPI_connect'' (SPI_connect env)), s)
                else execute_history_plan env e tuple (rd_att rel) s)"
    by (rule insert_history_row_reuse [OF o conjunct1 [OF a] conjunct2 [OF a]])
  show "versioning_cache (snd (insert_history_row env tuple rel hname pname s))
             = versioning_cache s"
    by (rule insert_history_row_reuse_cache [OF o conjunct1 [OF a] conjunct2 [OF a]])
next
  fix freed e1
  assume a: "(case versioning_cache s (rd_id rel) of
             None \<Rightarrow> True
           | Some e \<Rightarrow> cached_data_invalid e rel hrel = Some True) \<and>
          entry_before_rebuild env (versioning_cache s (rd_id rel)) = (freed, e1)"
  note st = conjunct1 [OF a] and eb = conjunct2 [OF a]
  from eb have f: "freed = fst (entry_before_rebuild env (versioning_cache s (rd_id rel)))"
    and e1: "e1 = snd (entry_before_rebuild env (versioning_cache s (rd_id rel)))"
    by simp_all
  show n: "natts e1 = - 1" and t: "tupdesc e1 = None" and ht: "history_tupdesc e1 = None"
    and "attnums e1 = None"
    unfolding e1 by (rule entry_before_rebuild_invalid)+
  show "insert_history_plan e1 = None" if "freed = None"
    using that unfolding e1 f by (rule entry_before_rebuild_invalid)
  show "cached_data_invalid e1 rel' hrel' = Some True" for rel' hrel'
    using n by (rule cached_data_invalid_marked)
  show "insert_history_row env tuple rel hname pname s
                = (case freed of
                     Some err \<Rightarrow> (Inl err, store_hash_entry (rd_id rel) e1 s)
                   | None \<Rightarrow>
                       if SPI_connect env \<noteq> SPI_OK_CONNECT
                       then (Inl (SPI_failed ''SPI_connect'' (SPI_connect env)),
                             store_hash_entry (rd_id rel) e1 s)
                       else
                         (case fill_versioning_hash_entry env e1 rel hrel (rd_att rel) pname of
                            Inl err \<Rightarrow> (Inl err, store_hash_entry (rd_id rel) e1 s)
                          | Inr e2 \<Rightarrow>
                              execute_history_plan env e2 tuple (rd_att rel)
                                (store_hash_entry (rd_id rel) e2 s)))"
    using insert_history_row_rebuild [OF o st, of tuple pname] by (simp add: eb)
  {
    fix e2
    assume fill: "fill_versioning_hash_entry env e1 rel hrel (rd_att rel) pname = Inr e2"
    from fill_versioning_hash_entry_Inr(1) [OF fill]
    show e2: "e2 = rebuilt_entry e1 rel hrel" .
    show "entry_consistent e2" unfolding e2 using t ht by (rule rebuilt_entry_consistent)
    show "natts e2 \<noteq> - 1" unfolding e2 by (simp add: rebuilt_entry_def Let_def)
    show "versioning_cache
            (snd (execute_history_plan env e2 tuple (rd_att rel)
                    (store_hash_entry (rd_id rel) e2 s)))
            = (versioning_cache s)(rd_id rel \<mapsto> e2)"
      by (simp add: execute_history_plan_frame)
  }
  show "fill_versioning_hash_entry env e1 rel hrel (rd_att rel) pname
          = Inl (HistoryLacksPeriodColumn (rd_relname hrel) pname)"
    if "SPI_fnumber (rd_att hrel) pname < 0"
    using that by (simp add: fill_versioning_hash_entry_def)
  {
    fix attr
    assume at: "attr \<in> set (rd_att rel)"
      and m: "\<not> attisdropped attr \<and> 0 \<le> SPI_fnumber (rd_att hrel) (attname attr) \<and>
                  check_attr_type attr
                    (rd_att hrel ! nat (SPI_fnumber (rd_att hrel) (attname attr) - 1)) rel hrel
                    \<noteq> Inr ()"
    show "\<exists>err. fill_versioning_hash_entry env e1 rel hrel (rd_att rel) pname = Inl err"
      by (rule fill_versioning_hash_entry_mismatch
            [OF at m [THEN conjunct1] m [THEN conjunct2, THEN conjunct1]
                m [THEN conjunct2, THEN conjunct2]])
  }
  {
    assume g: "0 \<le> SPI_fnumber (rd_att hrel) pname \<and>
               (\<forall>attr \<in> set (rd_att rel).
                  \<not> attisdropped attr \<and> 0 \<le> SPI_fnumber (rd_att hrel) (attname attr) \<longrightarrow>
                  check_attr_type attr
                    (rd_att hrel ! nat (SPI_fnumber (rd_att hrel) (attname attr) - 1)) rel hrel
                    = Inr ()) \<and>
               int (length (spec_common_columns (rd_att hrel) (rd_att rel) 0))
                 \<le> min (int (length (rd_att rel))) (int (length (rd_att hrel))) \<and>
               (spec_common_columns (rd_att hrel) (rd_att rel) 0 \<noteq> [] \<longrightarrow>
                  SPI_prepare_ok env \<and> SPI_keepplan env = 0)"
    show "fill_versioning_hash_entry env e1 rel hrel (rd_att rel) pname
            = Inr (rebuilt_entry e1 rel hrel)"
      by (rule fill_versioning_hash_entry_succeeds
            [OF g [THEN conjunct1] g [THEN conjunct2, THEN conjunct1]
                g [THEN conjunct2, THEN conjunct2, THEN conjunct1]
                g [THEN conjunct2, THEN conjunct2, THEN conjunct2]])
  }
qed


theorem C5_witness:
  "versioning_cache
     (snd (insert_history_row (example_host 2000 10)
             (example_row 9 ''a'' (Some (NonEmptyRange (Bounded 1000 True) (Bounded 2000 False))))
             example_R ''r_hist'' ''valid_time'' initial_session)) 16384
     = Some example_entry
   \<and> insert_history_row (example_host 2000 10)
       (example_row 9 ''a'' (Some (NonEmptyRange (Bounded 1000 True) (Bounded 2000 False))))
       example_R ''r_hist'' ''valid_from'' initial_session
     = (Inl (HistoryLacksPeriodColumn ''r_hist'' ''valid_from''),
        initial_session
          \<lparr>versioning_cache := (\<lambda>_. None)
             (16384 \<mapsto> \<lparr>history_relid = 0, tupdesc = None, history_tupdesc = None, natts = - 1,
                         attnums = None, insert_history_plan = None\<rparr>)\<rparr>)
   \<and> insert_history_row
       ((example_host 2000 10)
          \<lparr>heap_openrv := (\<lambda>_. Some (example_R_hist
             \<lparr>rd_att :=
                [\<lparr>attname = ''id'', atttypid = 23, attndims = 0, atttypmod = - 1,
                  attisdropped = False\<rparr>,
                 \<lparr>attname = ''data'', atttypid = 1043, attndims = 0, atttypmod = 28,
                  attisdropped = False\<rparr>,
                 \<lparr>attname = ''valid_time'', atttypid = 3910, attndims = 0, atttypmod = - 1,
                  attisdropped = False\<rparr>]\<rparr>))\<rparr>)
       (example_row 9 ''a'' (Some (NonEmptyRange (Bounded 1000 True) (Bounded 2000 False))))
       example_R ''r_hist'' ''valid_time'' initial_session
     = (Inl (ColumnTypeMismatch ''data'' ''r'' ''data'' ''r_hist''),
        initial_session
          \<lparr>versioning_cache := (\<lambda>_. None)
             (16384 \<mapsto> \<lparr>history_relid = 0, tupdesc = None, history_tupdesc = None, natts = - 1,
                         attnums = None, insert_history_plan = None\<rparr>)\<rparr>)"
proof -
  let ?tuple = "example_row 9 ''a'' (Some (NonEmptyRange (Bounded 1000 True) (Bounded 2000 False)))"
  let ?new = "\<lparr>history_relid = 0, tupdesc = None, history_tupdesc = None, natts = - 1,
               attnums = None, insert_history_plan = None\<rparr>"
  let ?hist = "example_R_hist
             \<lparr>rd_att :=
                [\<lparr>attname = ''id'', atttypid = 23, attndims = 0, atttypmod = - 1,
                  attisdropped = False\<rparr>,
                 \<lparr>attname = ''data'', atttypid = 1043, attndims = 0, atttypmod = 28,
                  attisdropped = False\<rparr>,
                 \<lparr>attname = ''valid_time'', atttypid = 3910, attndims = 0, atttypmod = - 1,
                  attisdropped = False\<rparr>]\<rparr>"
  let ?env = "(example_host 2000 10)\<lparr>heap_openrv := (\<lambda>_. Some ?hist)\<rparr>"
  have o: "heap_openrv (example_host 2000 10) ''r_hist'' = Some example_R_hist"
    by (simp add: example_host_def)
  have o': "heap_openrv ?env ''r_hist'' = Some ?hist" by simp
  have id: "rd_id example_R = 16384" by (simp add: example_R_def)
  have connect: "SPI_connect (example_host 2000 10) = SPI_OK_CONNECT"
    "SPI_connect ?env = SPI_OK_CONNECT"
    by (simp_all add: example_host_def SPI_OK_CONNECT_def)
  have st: "(case versioning_cache initial_session (rd_id example_R) of
              None \<Rightarrow> True
            | Some e \<Rightarrow> cached_data_invalid e example_R hrel = Some True) \<and>
            entry_before_rebuild env (versioning_cache initial_session (rd_id example_R))
              = (None, ?new)" for hrel and env :: "unit host"
    by (simp add: entry_before_rebuild_def lookup_versioning_hash_entry_def initial_session_def)
  note c1 = C5_cache_rebuild [OF o, where rel = example_R and s = initial_session
        and tuple = ?tuple and pname = "''valid_time''",
      THEN conjunct2, THEN conjunct2, THEN conjunct2, rule_format, OF st,
      THEN conjunct2, THEN conjunct2, THEN conjunct2, THEN conjunct2, THEN conjunct2,
      THEN conjunct2]
  note c2 = C5_cache_rebuild [OF o, where rel = example_R and s = initial_session
        and tuple = ?tuple and pname = "''valid_from''",
      THEN conjunct2, THEN conjunct2, THEN conjunct2, rule_format, OF st,
      THEN conjunct2, THEN conjunct2, THEN conjunct2, THEN conjunct2, THEN conjunct2,
      THEN conjunct2]
  note c3 = C5_cache_rebuild [OF o', where rel = example_R and s = initial_session
        and tuple = ?tuple and pname = "''valid_time''",
      THEN conjunct2, THEN conjunct2, THEN conjunct2, rule_format, OF st,
      THEN conjunct2, THEN conjunct2, THEN conjunct2, THEN conjunct2, THEN conjunct2,
      THEN conjunct2]
  have fill1: "fill_versioning_hash_entry (example_host 2000 10) ?new example_R example_R_hist
                 (rd_att example_R) ''valid_time'' = Inr example_entry"
    by (simp add: fill_versioning_hash_entry_def check_attr_type_def host_defs example_defs
          example_entry_def Let_def)
  have fill2: "fill_versioning_hash_entry (example_host 2000 10) ?new example_R example_R_hist
                 (rd_att example_R) ''valid_from''
               = Inl (HistoryLacksPeriodColumn ''r_hist'' ''valid_from'')"
    by (simp add: fill_versioning_hash_entry_def host_defs example_defs)
  have fill3: "fill_versioning_hash_entry ?env ?new example_R ?hist (rd_att example_R) ''valid_time''
               = Inl (ColumnTypeMismatch ''data'' ''r'' ''data'' ''r_hist'')"
    by (simp add: fill_versioning_hash_entry_def check_attr_type_def host_defs example_defs Let_def)
  have "insert_history_row (example_host 2000 10) ?tuple example_R ''r_hist'' ''valid_time''
          initial_session
        = execute_history_plan (example_host 2000 10) example_entry ?tuple (rd_att example_R)
            (store_hash_entry (rd_id example_R) example_entry initial_session)"
    using c1 [THEN conjunct1] by (simp add: connect fill1)
  moreover from c1 [THEN conjunct2, THEN conjunct1, rule_format, OF fill1]
  have "versioning_cache
          (snd (execute_history_plan (example_host 2000 10) example_entry ?tuple (rd_att example_R)
                  (store_hash_entry (rd_id example_R) example_entry initial_session)))
        = (versioning_cache initial_session)(rd_id example_R \<mapsto> example_entry)"
    by (elim conjE)
  ultimately have 1: "versioning_cache
     (snd (insert_history_row (example_host 2000 10) ?tuple example_R ''r_hist''
             ''valid_time'' initial_session)) 16384 = Some example_entry"
    by (simp add: id)
  have 2: "insert_history_row (example_host 2000 10) ?tuple example_R ''r_hist'' ''valid_from''
             initial_session
           = (Inl (HistoryLacksPeriodColumn ''r_hist'' ''valid_from''),
              initial_session\<lparr>versioning_cache := (\<lambda>_. None)(16384 \<mapsto> ?new)\<rparr>)"
    using c2 [THEN conjunct1]
    by (simp add: connect fill2 id store_hash_entry_def initial_session_def)
  have 3: "insert_history_row ?env ?tuple example_R ''r_hist'' ''valid_time'' initial_session
           = (Inl (ColumnTypeMismatch ''data'' ''r'' ''data'' ''r_hist''),
              initial_session\<lparr>versioning_cache := (\<lambda>_. None)(16384 \<mapsto> ?new)\<rparr>)"
    using c3 [THEN conjunct1]
    by (simp add: connect fill3 id store_hash_entry_def initial_session_def)
  from 1 2 3 show ?thesis by (intro conjI)
qed

subsection \<open>The row inserted into the history relation\<close>

lemma cached_data_invalid_False:
  assumes "cached_data_invalid e rel hrel = Some False"
  shows "natts e \<noteq> - 1" "history_relid e = rd_id hrel" "tupdesc e = Some (rd_att rel)"
    "history_tupdesc e = Some (rd_att hrel)"
  using assms by (auto simp: cached_data_invalid_def split: if_splits option.splits)

lemma entry_consistent_valid:
  assumes "entry_consistent e" "natts e \<noteq> - 1" "tupdesc e = Some td" "history_tupdesc e = Some htd"
  shows "spec_common_columns htd td 0 \<noteq> []"
    and "natts e = int (length (spec_common_columns htd td 0))"
    and "attnums e = Some (map fst (spec_common_columns htd td 0))"
    and "\<exists>plan. insert_history_plan e = Some plan \<and>
           plan_attnames plan = map (\<lambda>(_, _, name). name) (spec_common_columns htd td 0)"
  using assms by (auto simp: entry_consistent_def Let_def split: option.splits)

lemma rebuilt_entry_valid:
  assumes "spec_common_columns (rd_att hrel) (rd_att rel) 0 \<noteq> []"
  shows "natts (rebuilt_entry e1 rel hrel) = int (length (spec_common_columns (rd_att hrel) (rd_att rel) 0))"
    and "attnums (rebuilt_entry e1 rel hrel) = Some (map fst (spec_common_columns (rd_att hrel) (rd_att rel) 0))"
    and "\<exists>plan. insert_history_plan (rebuilt_entry e1 rel hrel) = Some plan \<and>
           plan_attnames plan = map (\<lambda>(_, _, name). name) (spec_common_columns (rd_att hrel) (rd_att rel) 0)"
  using assms by (simp_all add: rebuilt_entry_def Let_def)

lemma rebuilt_entry_empty:
  assumes "spec_common_columns (rd_att hrel) (rd_att rel) 0 = []"
  shows "natts (rebuilt_entry e1 rel hrel) = 0"
  using assms by (simp add: rebuilt_entry_def Let_def)

text \<open>
  What a successful \<open>insert_history_row\<close> has done, from a consistent cache: with the
  common columns of the live schemas, it has inserted one row holding the values of
  these columns of the tuple, through a plan on these columns.
\<close>

lemma execute_history_plan_common:
  assumes x: "execute_history_plan env e tuple td s = (Inr u, s')"
      and n: "natts e = int (length common)"
      and a: "common \<noteq> [] \<Longrightarrow> attnums e = Some (map fst common)"
      and p: "common \<noteq> [] \<Longrightarrow> \<exists>plan. insert_history_plan e = Some plan \<and>
                plan_attnames plan = map (\<lambda>(_, _, name). name) common"
  shows "if common = [] then history_rows s' = history_rows s
         else \<exists>plan. plan_attnames plan = map (\<lambda>(_, _, name). name) common \<and>
                history_rows s' = history_rows s @
                  [(plan, map (SPI_getbinval tuple td) (map fst common))]"
proof (cases "common = []")
  case True
  with execute_history_plan_Inr [OF x] n show ?thesis by auto
next
  case False
  with n have "natts e \<noteq> 0" by simp
  with execute_history_plan_Inr [OF x] obtain nums plan where
    e: "attnums e = Some nums" "insert_history_plan e = Some plan"
    and s': "s' = s\<lparr>history_rows := history_rows s @
                     [(plan, map (SPI_getbinval tuple td) (take (nat (natts e)) nums))]\<rparr>"
    by auto
  from a [OF False] e have nums: "nums = map fst common" by simp
  from p [OF False] e have names: "plan_attnames plan = map (\<lambda>(_, _, name). name) common" by auto
  have "take (nat (natts e)) nums = nums" by (simp add: n nums)
  with s' names False nums show ?thesis by auto
qed

lemma insert_history_row_Inr:
  assumes cc: "cache_consistent s"
      and r: "insert_history_row env tuple rel hname pname s = (Inr u, s')"
  shows "\<exists>hrel. heap_openrv env hname = Some hrel \<and>
           (if spec_common_columns (rd_att hrel) (rd_att rel) 0 = []
            then history_rows s' = history_rows s
            else \<exists>plan. plan_attnames plan
                          = map (\<lambda>(_, _, name). name) (spec_common_columns (rd_att hrel) (rd_att rel) 0) \<and>
                   history_rows s' = history_rows s @
                     [(plan, map (SPI_getbinval tuple (rd_att rel))
                               (map fst (spec_common_columns (rd_att hrel) (rd_att rel) 0)))])"
proof -
  from r obtain hrel where o: "heap_openrv env hname = Some hrel"
    by (auto simp: insert_history_row_def split: option.splits)
  let ?common = "spec_common_columns (rd_att hrel) (rd_att rel) 0"
  have "if ?common = [] then history_rows s' = history_rows s
        else \<exists>plan. plan_attnames plan = map (\<lambda>(_, _, name). name) ?common \<and>
               history_rows s' = history_rows s @
                 [(plan, map (SPI_getbinval tuple (rd_att rel)) (map fst ?common))]"
  proof (cases "\<exists>e. versioning_cache s (rd_id rel) = Some e \<and>
                    cached_data_invalid e rel hrel \<noteq> Some True")
    case True
    then obtain e where e: "versioning_cache s (rd_id rel) = Some e"
      and ne: "cached_data_invalid e rel hrel \<noteq> Some True" by blast
    have "cached_data_invalid e rel hrel \<noteq> None"
    proof
      assume "cached_data_invalid e rel hrel = None"
      with o e have "fst (insert_history_row env tuple rel hname pname s) = Inl UndefinedBehaviour"
        by (simp add: insert_history_row_def lookup_versioning_hash_entry_def Let_def)
      with r show False by simp
    qed
    with ne have f: "cached_data_invalid e rel hrel = Some False" by auto
    from cc e have ec: "entry_consistent e" by (auto simp: cache_consistent_def)
    note v = cached_data_invalid_False [OF f]
    note k = entry_consistent_valid [OF ec v(1) v(3) v(4)]
    from r insert_history_row_reuse [OF o e f, of tuple pname]
    have x: "execute_history_plan env e tuple (rd_att rel) s = (Inr u, s')"
      by (auto split: if_splits)
    show ?thesis
      by (rule execute_history_plan_common [OF x k(2) k(3) k(4)])
  next
    case False
    then have st: "case versioning_cache s (rd_id rel) of
             None \<Rightarrow> True
           | Some e \<Rightarrow> cached_data_invalid e rel hrel = Some True"
      by (auto split: option.splits)
    obtain freed e1 where eb: "entry_before_rebuild env (versioning_cache s (rd_id rel)) = (freed, e1)"
      by (cases "entry_before_rebuild env (versioning_cache s (rd_id rel))")
    from r insert_history_row_rebuild [OF o st, of tuple pname, unfolded eb, simplified]
    obtain e2 where fill: "fill_versioning_hash_entry env e1 rel hrel (rd_att rel) pname = Inr e2"
      and x: "execute_history_plan env e2 tuple (rd_att rel) (store_hash_entry (rd_id rel) e2 s)
                = (Inr u, s')"
      by (auto split: option.splits if_splits sum.splits)
    from fill_versioning_hash_entry_Inr [OF fill] have e2: "e2 = rebuilt_entry e1 rel hrel" by simp
    have n: "natts e2 = int (length ?common)"
      unfolding e2 by (cases "?common = []") (simp_all add: rebuilt_entry_valid rebuilt_entry_empty)
    have "if ?common = [] then history_rows s' = history_rows (store_hash_entry (rd_id rel) e2 s)
          else \<exists>plan. plan_attnames plan = map (\<lambda>(_, _, name). name) ?common \<and>
                history_rows s' = history_rows (store_hash_entry (rd_id rel) e2 s) @
                  [(plan, map (SPI_getbinval tuple (rd_att rel)) (map fst ?common))]"
      by (rule execute_history_plan_common [OF x n])
         (simp_all add: e2 rebuilt_entry_valid)
    moreover have "history_rows (store_hash_entry (rd_id rel) e2 s) = history_rows s"
      by (simp add: store_hash_entry_def)
    ultimately show ?thesis by (simp only:)
  qed
  with o show ?thesis by blast
qed


lemma adjust_system_period_frame:
  assumes "adjust_system_period env lb ub adj rel s = (r, s1)"
  shows "versioning_cache s1 = versioning_cache s" "history_rows s1 = history_rows s"
    "temporal_contexts s1 = temporal_contexts s"
proof -
  have "versioning_cache s1 = versioning_cache s \<and> history_rows s1 = history_rows s \<and>
        temporal_contexts s1 = temporal_contexts s"
  proof (cases "0 \<le> range_cmp_bounds lb ub \<and> parse_adjust_argument adj = Inr True")
    case True
    with assms have "s1 = snd (next_timestamp env (val lb)
                       (s\<lparr>warnings := warnings s @ [SystemPeriodAdjusted (rd_relname rel)]\<rparr>))"
      by (auto simp: adjust_system_period_def Let_def split: prod.splits)
    then show ?thesis by (simp add: next_timestamp_frame)
  next
    case False
    with assms have "s1 = s"
      by (auto simp: adjust_system_period_def Let_def split: sum.splits if_splits bool.splits)
    then show ?thesis by simp
  qed
  then show "versioning_cache s1 = versioning_cache s" "history_rows s1 = history_rows s"
    "temporal_contexts s1 = temporal_contexts s" by simp_all
qed

lemma adjust_system_period_bound:
  assumes "adjust_system_period env lb ub adj rel s = (Inr ub', s1)"
  shows "infinite_bound ub' = infinite_bound ub" "inclusive ub' = inclusive ub" "lower ub' = lower ub"
  using assms
  by (auto simp: adjust_system_period_def Let_def split: sum.splits if_splits prod.splits)

lemma archive_old_row_Inr:
  assumes "archive_old_row env tuple rel n pname hname adj s = (Inr (lb, ub), s')"
  shows "\<exists>ub0 now s1 r ht u.
           deserialize_system_period tuple rel n pname = Inr (lb, ub0) \<and>
           get_system_time (GetCurrentTransactionStartTimestamp env)
             (GetCurrentSubTransactionId env) (temporal_contexts s) = Some now \<and>
           adjust_system_period env lb (ub0\<lparr>val := now, infinite_bound := False, inclusive := False\<rparr>)
             adj rel s = (Inr ub, s1) \<and>
           make_range lb ub = Inr r \<and> modify_tuple rel tuple n r = Inr ht \<and>
           insert_history_row env ht rel hname pname s1 = (Inr u, s')"
  using assms
  by (auto simp: archive_old_row_def Let_def split: sum.splits option.splits prod.splits)

lemma make_range_closing:
  assumes "make_range lb ub = Inr r" "\<not> infinite_bound ub" "\<not> inclusive ub"
  shows "r = (if \<not> infinite_bound lb \<and> val lb = val ub then EmptyRange
              else NonEmptyRange (serialize_bound lb) (Bounded (val ub) False))"
proof -
  have eq: "sint a = sint b \<longleftrightarrow> a = b" for a b :: TimestampTz
    by (auto intro: signed_word_eqI)
  show ?thesis
    using assms
    by (auto simp: make_range_def range_cmp_bound_values_def timestamp_cmp_def Let_def
          serialize_bound_def eq split: if_splits)
qed

lemma archive_old_row_history:
  assumes cc: "cache_consistent s"
      and a: "archive_old_row env tuple rel n pname hname adj s = (Inr (lb, ub), s')"
  shows "\<exists>ub0 r hrel.
           deserialize_system_period tuple rel n pname = Inr (lb, ub0) \<and>
           make_range lb ub = Inr r \<and>
           r = (if \<not> infinite_bound lb \<and> val lb = val ub then EmptyRange
                else NonEmptyRange (serialize_bound lb) (Bounded (val ub) False)) \<and>
           heap_openrv env hname = Some hrel \<and>
           (if spec_common_columns (rd_att hrel) (rd_att rel) 0 = []
            then history_rows s' = history_rows s
            else \<exists>plan. plan_attnames plan
                          = map (\<lambda>(_, _, name). name) (spec_common_columns (rd_att hrel) (rd_att rel) 0) \<and>
                   history_rows s' = history_rows s @
                     [(plan, map (\<lambda>(a, _, _). if a = n then Some (RangeDatum r)
                                              else SPI_getbinval tuple (rd_att rel) a)
                               (spec_common_columns (rd_att hrel) (rd_att rel) 0))])"
proof -
  from archive_old_row_Inr [OF a] obtain ub0 now s1 r ht u where
    d: "deserialize_system_period tuple rel n pname = Inr (lb, ub0)"
    and adj: "adjust_system_period env lb (ub0\<lparr>val := now, infinite_bound := False, inclusive := False\<rparr>)
             adj rel s = (Inr ub, s1)"
    and mr: "make_range lb ub = Inr r" and mt: "modify_tuple rel tuple n r = Inr ht"
    and ih: "insert_history_row env ht rel hname pname s1 = (Inr u, s')"
    by (elim exE conjE)
  note fr = adjust_system_period_frame [OF adj]
  from adjust_system_period_bound [OF adj] have ubf: "\<not> infinite_bound ub" "\<not> inclusive ub"
    by simp_all
  from cc fr(1) have cc1: "cache_consistent s1" by (simp add: cache_consistent_def)
  from insert_history_row_Inr [OF cc1 ih] obtain hrel where
    oh: "heap_openrv env hname = Some hrel \<and>
           (if spec_common_columns (rd_att hrel) (rd_att rel) 0 = []
            then history_rows s' = history_rows s1
            else \<exists>plan. plan_attnames plan
                          = map (\<lambda>(_, _, name). name) (spec_common_columns (rd_att hrel) (rd_att rel) 0) \<and>
                   history_rows s' = history_rows s1 @
                     [(plan, map (SPI_getbinval ht (rd_att rel))
                               (map fst (spec_common_columns (rd_att hrel) (rd_att rel) 0)))])" ..
  note o = conjunct1 [OF oh] and h = conjunct2 [OF oh]
  have g1: "SPI_getbinval ht (rd_att rel) n = Some (RangeDatum r)"
    using SPI_getbinval_modify_tuple(1) [OF mt, of "t_xmin ht"] by simp
  have g2: "SPI_getbinval ht (rd_att rel) a = SPI_getbinval tuple (rd_att rel) a" if "a \<noteq> n" for a
    using SPI_getbinval_modify_tuple(2) [OF mt that, of "t_xmin ht"] by simp
  have vals: "map (SPI_getbinval ht (rd_att rel)) (map fst common)
                = map (\<lambda>(a, _, _). if a = n then Some (RangeDatum r)
                                   else SPI_getbinval tuple (rd_att rel) a) common"
    for common :: "(int \<times> int \<times> string) list"
    by (induction common) (auto simp: g1 g2)
  from h have rows: "if spec_common_columns (rd_att hrel) (rd_att rel) 0 = []
            then history_rows s' = history_rows s
            else \<exists>plan. plan_attnames plan
                          = map (\<lambda>(_, _, name). name) (spec_common_columns (rd_att hrel) (rd_att rel) 0) \<and>
                   history_rows s' = history_rows s @
                     [(plan, map (\<lambda>(a, _, _). if a = n then Some (RangeDatum r)
                                              else SPI_getbinval tuple (rd_att rel) a)
                               (spec_common_columns (rd_att hrel) (rd_att rel) 0))]"
    by (simp only: fr(2) vals)
  show ?thesis
    apply (rule exI [of _ ub0])
    apply (rule exI [of _ r])
    apply (rule exI [of _ hrel])
    apply (intro conjI)
        apply (rule d)
       apply (rule mr)
      apply (rule make_range_closing [OF mr ubf])
     apply (rule o)
    apply (rule rows)
    done
qed



text \<open>
  The closing bound of a successful archival: the system time when it is above the
  lower bound of the stored period, and otherwise, the adjust argument being true, the
  successor of that lower bound.
\<close>

lemma archive_old_row_closing_bound:
  assumes a: "archive_old_row env tuple rel n pname hname adj s = (Inr (lb, ub), s')"
  shows "\<exists>ub0 now.
           deserialize_system_period tuple rel n pname = Inr (lb, ub0) \<and>
           get_system_time (GetCurrentTransactionStartTimestamp env)
             (GetCurrentSubTransactionId env) (temporal_contexts s) = Some now \<and>
           \<not> infinite_bound ub \<and> \<not> inclusive ub \<and>
           (infinite_bound lb \<or> sint (val lb) \<le> sint (val ub)) \<and>
           (if infinite_bound lb \<or> sint (val lb) < sint now then val ub = now
            else parse_adjust_argument adj = Inr True \<and>
                 val ub = fst (next_timestamp env (val lb)
                                 (s\<lparr>warnings := warnings s @ [SystemPeriodAdjusted (rd_relname rel)]\<rparr>)))"
proof -
  from archive_old_row_Inr [OF a] obtain ub0 now s1 r where
    d: "deserialize_system_period tuple rel n pname = Inr (lb, ub0)"
    and t: "get_system_time (GetCurrentTransactionStartTimestamp env)
              (GetCurrentSubTransactionId env) (temporal_contexts s) = Some now"
    and adj: "adjust_system_period env lb (ub0\<lparr>val := now, infinite_bound := False, inclusive := False\<rparr>)
                adj rel s = (Inr ub, s1)"
    and mr: "make_range lb ub = Inr r"
    by (elim exE conjE)
  let ?ub1 = "ub0\<lparr>val := now, infinite_bound := False, inclusive := False\<rparr>"
  from deserialize_system_period_bounds [OF d]
  have b: "lower lb" "\<not> lower ?ub1" "\<not> infinite_bound ?ub1" "\<not> inclusive ?ub1" by simp_all
  from adjust_system_period_bound [OF adj] have ubf: "\<not> infinite_bound ub" "\<not> inclusive ub"
    by simp_all
  from mr ubf have ord: "infinite_bound lb \<or> sint (val lb) \<le> sint (val ub)"
    by (auto simp: make_range_def range_cmp_bound_values_def timestamp_cmp_def Let_def
          split: if_splits)
  have v: "if infinite_bound lb \<or> sint (val lb) < sint now then val ub = now
           else parse_adjust_argument adj = Inr True \<and>
                val ub = fst (next_timestamp env (val lb)
                                (s\<lparr>warnings := warnings s @ [SystemPeriodAdjusted (rd_relname rel)]\<rparr>))"
  proof (cases "infinite_bound lb \<or> sint (val lb) < sint now")
    case True
    then have "infinite_bound lb \<or> sint (val lb) < sint (val ?ub1)" by simp
    from adjust_system_period_no_conflict [OF b this, of env adj rel s] adj
    have "ub = ?ub1" by simp
    with True show ?thesis by simp
  next
    case False
    then have fin: "\<not> infinite_bound lb" and le: "sint (val ?ub1) \<le> sint (val lb)" by simp_all
    from adjust_system_period_conflict [OF b fin le, of env adj rel s] adj
    have "parse_adjust_argument adj = Inr True \<and>
          ub = ?ub1\<lparr>val := fst (next_timestamp env (val lb)
                   (s\<lparr>warnings := warnings s @ [SystemPeriodAdjusted (rd_relname rel)]\<rparr>))\<rparr>"
      by (auto split: sum.splits bool.splits)
    with False show ?thesis by simp
  qed
  from d t ubf ord v show ?thesis by blast
qed

lemma sint_succ_wraps:
  fixes t :: TimestampTz
  assumes "sint t \<le> sint (t + 1)"
  shows "t \<noteq> INT64_MAX"
proof
  assume "t = INT64_MAX"
  with assms show False by (simp add: INT64_MAX_def)
qed

text \<open>
  Claim C10. Take an update or delete of a row not modified in the current
  transaction that succeeds, from a consistent cache. Let \<open>lb\<close> be the lower bound of
  the stored period of the old row and \<open>now\<close> the system time. The closing bound is
  \<open>now\<close> when \<open>lb\<close> is infinite or below \<open>now\<close>; otherwise the adjust argument is
  true and the closing bound is the successor of \<open>lb\<close>: \<open>lb + 1\<close> on the integer
  representation, where \<open>lb\<close> is then not the largest timestamp, and on the
  floating-point representation \<open>lb\<close> plus one microsecond or, when that compares equal
  to \<open>lb\<close>, the next value towards \<^verbatim>\<open>DBL_MAX\<close>. The interval \<open>r\<close> from \<open>lb\<close>, as
  stored, to the exclusive closing bound is what the period column of the archived row
  holds (\<^verbatim>\<open>make_range\<close> writes the interval between two bounds of the same value as
  the empty interval, which can only happen when the floating-point successor of the
  host is \<open>lb\<close> itself: that successor is never below \<open>lb\<close> here, and on a host whose
  floating-point arithmetic is as the specification describes it at \<open>lb\<close>, with an
  irreflexive order, it differs from \<open>lb\<close> and \<open>r\<close> is not empty). When the two
  relations have a common column, exactly one row
  has been inserted: for each common column, in order, the value of that column in the
  old row, except in the period column, which holds \<open>r\<close>. Each inserted value goes to
  the history column of the same name.
\<close>

theorem C10_history_row_frame:
  assumes cc: "cache_consistent s"
      and nm: "\<not> modified_in_current_transaction env (tg_trigtuple td)"
      and ok: "versioning_update env td tc n pname hname adj s = (Inr res, s')
               \<or> versioning_delete env td tc n pname hname adj s = (Inr res, s')"
  shows "\<exists>lb ub0 now r hrel.
           deserialize_system_period (tg_trigtuple td) (tg_relation td) n pname = Inr (lb, ub0) \<and>
           get_system_time (GetCurrentTransactionStartTimestamp env)
             (GetCurrentSubTransactionId env) (temporal_contexts s) = Some now \<and>
           r = (if infinite_bound lb \<or> sint (val lb) < sint now
                then NonEmptyRange (serialize_bound lb) (Bounded now False)
                else if (if integer_datetimes_set s then integer_datetimes s
                         else GetConfigOption_integer_datetimes env = ''on'')
                then NonEmptyRange (serialize_bound lb) (Bounded (val lb + 1) False)
                else
                  (let ts = float8_of_timestamp env (val lb);
                       next_ts = timestamp_of_float8 env
                                   (if float8_ne env (float8_plus_1E_06 env ts) ts
                                    then float8_plus_1E_06 env ts
                                    else nextafter_DBL_MAX env ts)
                   in if next_ts = val lb then EmptyRange
                      else NonEmptyRange (serialize_bound lb) (Bounded next_ts False))) \<and>
           (\<not> (infinite_bound lb \<or> sint (val lb) < sint now) \<longrightarrow>
              parse_adjust_argument adj = Inr True \<and>
              ((if integer_datetimes_set s then integer_datetimes s
                else GetConfigOption_integer_datetimes env = ''on'') \<longrightarrow>
                 val lb \<noteq> INT64_MAX \<and> sint (val lb + 1) = sint (val lb) + 1) \<and>
              (\<not> (if integer_datetimes_set s then integer_datetimes s
                   else GetConfigOption_integer_datetimes env = ''on'') \<longrightarrow>
                 (let ts = float8_of_timestamp env (val lb);
                      next_ts = timestamp_of_float8 env
                                  (if float8_ne env (float8_plus_1E_06 env ts) ts
                                   then float8_plus_1E_06 env ts
                                   else nextafter_DBL_MAX env ts)
                  in sint (val lb) \<le> sint next_ts \<and>
                     (\<forall>float8_lt. float8_successor_spec env float8_lt ts \<and> \<not> float8_lt ts ts \<longrightarrow>
                        r = NonEmptyRange (serialize_bound lb) (Bounded next_ts False))))) \<and>
           heap_openrv env hname = Some hrel \<and>
           (if spec_common_columns (rd_att hrel) (rd_att (tg_relation td)) 0 = []
            then history_rows s' = history_rows s
            else \<exists>plan. plan_attnames plan
                          = map (\<lambda>(_, _, name). name)
                              (spec_common_columns (rd_att hrel) (rd_att (tg_relation td)) 0) \<and>
                   history_rows s' = history_rows s @
                     [(plan, map (\<lambda>(a, _, _). if a = n then Some (RangeDatum r)
                                   else SPI_getbinval (tg_trigtuple td) (rd_att (tg_relation td)) a)
                               (spec_common_columns (rd_att hrel) (rd_att (tg_relation td)) 0))]) \<and>
           (\<forall>(a, h, name) \<in> set (spec_common_columns (rd_att hrel) (rd_att (tg_relation td)) 0).
              1 \<le> a \<and> a \<le> int (length (rd_att (tg_relation td))) \<and>
              name = attname (rd_att (tg_relation td) ! nat (a - 1)) \<and>
              h = SPI_fnumber (rd_att hrel) name \<and> 0 \<le> h)"
proof -
  let ?int = "if integer_datetimes_set s then integer_datetimes s
              else GetConfigOption_integer_datetimes env = ''on''"
  let ?w = "s\<lparr>warnings := warnings s @ [SystemPeriodAdjusted (rd_relname (tg_relation td))]\<rparr>"
  have "\<exists>lb ub. archive_old_row env (tg_trigtuple td) (tg_relation td) n pname hname adj s
                  = (Inr (lb, ub), s')"
    using ok
  proof
    assume "versioning_update env td tc n pname hname adj s = (Inr res, s')"
    with nm show ?thesis
      by (auto simp: versioning_update_def Let_def split: sum.splits prod.splits option.splits)
  next
    assume "versioning_delete env td tc n pname hname adj s = (Inr res, s')"
    with nm show ?thesis
      by (auto simp: versioning_delete_def Let_def split: sum.splits prod.splits)
  qed
  then obtain lb ub where
    a: "archive_old_row env (tg_trigtuple td) (tg_relation td) n pname hname adj s
          = (Inr (lb, ub), s')"
    by (elim exE)
  from archive_old_row_closing_bound [OF a] obtain ub0 now where
    d: "deserialize_system_period (tg_trigtuple td) (tg_relation td) n pname = Inr (lb, ub0)"
    and t: "get_system_time (GetCurrentTransactionStartTimestamp env)
              (GetCurrentSubTransactionId env) (temporal_contexts s) = Some now"
    and ord: "infinite_bound lb \<or> sint (val lb) \<le> sint (val ub)"
    and v: "if infinite_bound lb \<or> sint (val lb) < sint now then val ub = now
            else parse_adjust_argument adj = Inr True \<and>
                 val ub = fst (next_timestamp env (val lb) ?w)"
    by (elim exE conjE)
  from archive_old_row_history [OF cc a] obtain ub0' r hrel where
    h: "deserialize_system_period (tg_trigtuple td) (tg_relation td) n pname = Inr (lb, ub0') \<and>
           make_range lb ub = Inr r \<and>
           r = (if \<not> infinite_bound lb \<and> val lb = val ub then EmptyRange
                else NonEmptyRange (serialize_bound lb) (Bounded (val ub) False)) \<and>
           heap_openrv env hname = Some hrel \<and>
           (if spec_common_columns (rd_att hrel) (rd_att (tg_relation td)) 0 = []
            then history_rows s' = history_rows s
            else \<exists>plan. plan_attnames plan
                          = map (\<lambda>(_, _, name). name)
                              (spec_common_columns (rd_att hrel) (rd_att (tg_relation td)) 0) \<and>
                   history_rows s' = history_rows s @
                     [(plan, map (\<lambda>(a, _, _). if a = n then Some (RangeDatum r)
                                   else SPI_getbinval (tg_trigtuple td) (rd_att (tg_relation td)) a)
                               (spec_common_columns (rd_att hrel) (rd_att (tg_relation td)) 0))])"
    by (elim exE)
  note r0 = h [THEN conjunct2, THEN conjunct2, THEN conjunct1]
  note o = h [THEN conjunct2, THEN conjunct2, THEN conjunct2, THEN conjunct1]
  note rows = h [THEN conjunct2, THEN conjunct2, THEN conjunct2, THEN conjunct2]
  have nt_int: "fst (next_timestamp env (val lb) ?w) = val lb + 1" if "?int"
    using that by (cases "integer_datetimes_set s")
      (simp_all add: next_timestamp_def lookup_integer_datetimes_def)
  have nt_float: "fst (next_timestamp env (val lb) ?w) =
      timestamp_of_float8 env
        (if float8_ne env (float8_plus_1E_06 env (float8_of_timestamp env (val lb)))
              (float8_of_timestamp env (val lb))
         then float8_plus_1E_06 env (float8_of_timestamp env (val lb))
         else nextafter_DBL_MAX env (float8_of_timestamp env (val lb)))" if "\<not> ?int"
    using that by (cases "integer_datetimes_set s")
      (simp_all add: next_timestamp_def lookup_integer_datetimes_def Let_def)
  have r: "r = (if infinite_bound lb \<or> sint (val lb) < sint now
                then NonEmptyRange (serialize_bound lb) (Bounded now False)
                else if ?int
                then NonEmptyRange (serialize_bound lb) (Bounded (val lb + 1) False)
                else
                  (let ts = float8_of_timestamp env (val lb);
                       next_ts = timestamp_of_float8 env
                                   (if float8_ne env (float8_plus_1E_06 env ts) ts
                                    then float8_plus_1E_06 env ts
                                    else nextafter_DBL_MAX env ts)
                   in if next_ts = val lb then EmptyRange
                      else NonEmptyRange (serialize_bound lb) (Bounded next_ts False)))"
  proof (cases "infinite_bound lb \<or> sint (val lb) < sint now")
    case True
    with v have "val ub = now" by simp
    with True r0 show ?thesis by auto
  next
    case False
    with v have vu: "val ub = fst (next_timestamp env (val lb) ?w)" by simp
    show ?thesis
    proof (cases "?int")
      case True
      from vu nt_int [OF True] have "val ub = val lb + 1" by simp
      with False True r0 show ?thesis by simp
    next
      case nint: False
      from vu nt_float [OF nint] False nint r0 show ?thesis
        by (simp add: Let_def eq_commute)
    qed
  qed
  have cf: "let ts = float8_of_timestamp env (val lb);
                next_ts = timestamp_of_float8 env
                            (if float8_ne env (float8_plus_1E_06 env ts) ts
                             then float8_plus_1E_06 env ts
                             else nextafter_DBL_MAX env ts)
            in sint (val lb) \<le> sint next_ts \<and>
               (\<forall>float8_lt. float8_successor_spec env float8_lt ts \<and> \<not> float8_lt ts ts \<longrightarrow>
                  r = NonEmptyRange (serialize_bound lb) (Bounded next_ts False))"
    if nc: "\<not> (infinite_bound lb \<or> sint (val lb) < sint now)" and ni: "\<not> ?int"
  proof -
    let ?ts = "float8_of_timestamp env (val lb)"
    let ?next = "timestamp_of_float8 env
                   (if float8_ne env (float8_plus_1E_06 env ?ts) ?ts
                    then float8_plus_1E_06 env ?ts else nextafter_DBL_MAX env ?ts)"
    from v nc nt_float [OF ni] have vu: "val ub = ?next" by simp
    with ord nc have le: "sint (val lb) \<le> sint ?next" by simp
    have ne: "r = NonEmptyRange (serialize_bound lb) (Bounded ?next False)"
      if sp: "float8_successor_spec env float8_lt ?ts \<and> \<not> float8_lt ?ts ?ts" for float8_lt
    proof -
      have "float8_lt ?ts (float8_of_timestamp env ?next)"
        using sp by (auto simp: float8_successor_spec_def)
      with sp have "?next \<noteq> val lb" by auto
      with r nc ni show ?thesis by (simp add: Let_def)
    qed
    from le ne show ?thesis unfolding Let_def by blast
  qed
  have c: "parse_adjust_argument adj = Inr True \<and>
              (?int \<longrightarrow> val lb \<noteq> INT64_MAX \<and> sint (val lb + 1) = sint (val lb) + 1) \<and>
              (\<not> ?int \<longrightarrow>
                 (let ts = float8_of_timestamp env (val lb);
                      next_ts = timestamp_of_float8 env
                                  (if float8_ne env (float8_plus_1E_06 env ts) ts
                                   then float8_plus_1E_06 env ts
                                   else nextafter_DBL_MAX env ts)
                  in sint (val lb) \<le> sint next_ts \<and>
                     (\<forall>float8_lt. float8_successor_spec env float8_lt ts \<and> \<not> float8_lt ts ts \<longrightarrow>
                        r = NonEmptyRange (serialize_bound lb) (Bounded next_ts False))))"
    if nc: "\<not> (infinite_bound lb \<or> sint (val lb) < sint now)"
  proof (intro conjI impI)
    from v nc show "parse_adjust_argument adj = Inr True" by simp
  next
    assume i: "?int"
    from v nc nt_int [OF i] have "val ub = val lb + 1" by simp
    with ord nc have "sint (val lb) \<le> sint (val lb + 1)" by simp
    then show m: "val lb \<noteq> INT64_MAX" by (rule sint_succ_wraps)
    then have "val lb \<noteq> 0x7FFFFFFFFFFFFFFF" by (simp add: INT64_MAX_def)
    then show "sint (val lb + 1) = sint (val lb) + 1" by (rule sint_succ)
  next
    assume "\<not> ?int"
    with nc show "let ts = float8_of_timestamp env (val lb);
                      next_ts = timestamp_of_float8 env
                                  (if float8_ne env (float8_plus_1E_06 env ts) ts
                                   then float8_plus_1E_06 env ts
                                   else nextafter_DBL_MAX env ts)
                  in sint (val lb) \<le> sint next_ts \<and>
                     (\<forall>float8_lt. float8_successor_spec env float8_lt ts \<and> \<not> float8_lt ts ts \<longrightarrow>
                        r = NonEmptyRange (serialize_bound lb) (Bounded next_ts False))"
      by (rule cf)
  qed
  have names: "\<forall>(a, h, name) \<in> set (spec_common_columns (rd_att hrel) (rd_att (tg_relation td)) 0).
              1 \<le> a \<and> a \<le> int (length (rd_att (tg_relation td))) \<and>
              name = attname (rd_att (tg_relation td) ! nat (a - 1)) \<and>
              h = SPI_fnumber (rd_att hrel) name \<and> 0 \<le> h"
  proof (intro ballI, clarify)
    fix a h name
    assume "(a, h, name) \<in> set (spec_common_columns (rd_att hrel) (rd_att (tg_relation td)) 0)"
    from spec_common_columns_sound [OF this] obtain j where
      "j < length (rd_att (tg_relation td))" "a = 0 + int j + 1"
      "name = attname (rd_att (tg_relation td) ! j)" "h = SPI_fnumber (rd_att hrel) name" "0 \<le> h"
      by (elim exE conjE)
    then show "1 \<le> a \<and> a \<le> int (length (rd_att (tg_relation td))) \<and>
              name = attname (rd_att (tg_relation td) ! nat (a - 1)) \<and>
              h = SPI_fnumber (rd_att hrel) name \<and> 0 \<le> h"
      by simp
  qed
  show ?thesis
    apply (rule exI [of _ lb])
    apply (rule exI [of _ ub0])
    apply (rule exI [of _ now])
    apply (rule exI [of _ r])
    apply (rule exI [of _ hrel])
    apply (rule conjI [OF d])
    apply (rule conjI [OF t])
    apply (rule conjI [OF r])
    apply (rule conjI)
     apply (rule impI)
     apply (erule c)
    apply (rule conjI [OF o])
    apply (rule conjI [OF rows])
    apply (rule names)
    done
qed

lemma cache_consistent_initial_session: "cache_consistent initial_session"
  by (simp add: cache_consistent_def initial_session_def)


theorem C10_witness:
  "map snd (history_rows (snd (versioning_update (example_host 2000 10)
      (example_trigdata 14
         (example_row 9 ''a'' (Some (NonEmptyRange (Bounded 1000 True) Unbounded)))
         (Some (example_row 0 ''b'' None)) ''true'')
      example_typcache 3 ''valid_time'' ''r_hist'' ''true'' initial_session)))
     = [[Some (OtherDatum ''1''), Some (OtherDatum ''a''),
         Some (RangeDatum (NonEmptyRange (Bounded 1000 True) (Bounded 2000 False)))]]
   \<and> map snd (history_rows (snd (versioning_delete (example_host 500 10)
      (example_trigdata 13
         (example_row 9 ''a'' (Some (NonEmptyRange (Bounded 1000 True) Unbounded))) None ''true'')
      example_typcache 3 ''valid_time'' ''r_hist'' ''true'' initial_session)))
     = [[Some (OtherDatum ''1''), Some (OtherDatum ''a''),
         Some (RangeDatum (NonEmptyRange (Bounded 1000 True) (Bounded 1001 False)))]]
   \<and> map snd (history_rows (snd (versioning_delete (example_float_host 500 10)
      (example_trigdata 13
         (example_row 9 ''a'' (Some (NonEmptyRange (Bounded 9007199254740992 True) Unbounded)))
         None ''true'')
      example_typcache 3 ''valid_time'' ''r_hist'' ''true'' initial_session)))
     = [[Some (OtherDatum ''1''), Some (OtherDatum ''a''),
         Some (RangeDatum (NonEmptyRange (Bounded 9007199254740992 True)
                             (Bounded 9007199254740994 False)))]]"
proof (intro conjI)
  let ?old = "example_row 9 ''a'' (Some (NonEmptyRange (Bounded 1000 True) Unbounded))"
  let ?lb = "\<lparr>val = 1000, infinite_bound = False, inclusive = True, lower = True\<rparr>"
  let ?ub = "\<lparr>val = 0, infinite_bound = True, inclusive = False, lower = False\<rparr>"
  have common: "spec_common_columns (rd_att example_R_hist) (rd_att example_R) 0
                  = [(1, 1, ''id''), (2, 2, ''data''), (3, 3, ''valid_time'')]"
    by (simp add: host_defs example_defs)
  have vals: "SPI_getbinval ?old (rd_att example_R) 1 = Some (OtherDatum ''1'')"
    "SPI_getbinval ?old (rd_att example_R) 2 = Some (OtherDatum ''a'')"
    by (simp_all add: host_defs example_defs)
  {
    fix env :: "unit host" and td res s' adj
    assume nm: "\<not> modified_in_current_transaction env (tg_trigtuple td)"
      and ok: "versioning_update env td example_typcache 3 ''valid_time'' ''r_hist'' adj initial_session
                 = (Inr res, s')
               \<or> versioning_delete env td example_typcache 3 ''valid_time'' ''r_hist'' adj initial_session
                 = (Inr res, s')"
      and tup: "tg_trigtuple td = ?old" and rel: "tg_relation td = example_R"
      and o: "heap_openrv env ''r_hist'' = Some example_R_hist"
      and cfg: "GetConfigOption_integer_datetimes env = ''on''"
    from C10_history_row_frame [OF cache_consistent_initial_session nm ok]
    obtain lb ub0 now r hrel where
      d: "deserialize_system_period (tg_trigtuple td) (tg_relation td) 3 ''valid_time'' = Inr (lb, ub0)"
      and t: "get_system_time (GetCurrentTransactionStartTimestamp env)
                (GetCurrentSubTransactionId env) (temporal_contexts initial_session) = Some now"
      and r: "r = (if infinite_bound lb \<or> sint (val lb) < sint now
                then NonEmptyRange (serialize_bound lb) (Bounded now False)
                else if (if integer_datetimes_set initial_session then integer_datetimes initial_session
                         else GetConfigOption_integer_datetimes env = ''on'')
                then NonEmptyRange (serialize_bound lb) (Bounded (val lb + 1) False)
                else
                  (let ts = float8_of_timestamp env (val lb);
                       next_ts = timestamp_of_float8 env
                                   (if float8_ne env (float8_plus_1E_06 env ts) ts
                                    then float8_plus_1E_06 env ts
                                    else nextafter_DBL_MAX env ts)
                   in if next_ts = val lb then EmptyRange
                      else NonEmptyRange (serialize_bound lb) (Bounded next_ts False)))"
      and oh: "heap_openrv env ''r_hist'' = Some hrel"
      and rows: "if spec_common_columns (rd_att hrel) (rd_att (tg_relation td)) 0 = []
            then history_rows s' = history_rows initial_session
            else \<exists>plan. plan_attnames plan
                          = map (\<lambda>(_, _, name). name)
                              (spec_common_columns (rd_att hrel) (rd_att (tg_relation td)) 0) \<and>
                   history_rows s' = history_rows initial_session @
                     [(plan, map (\<lambda>(a, _, _). if a = 3 then Some (RangeDatum r)
                                   else SPI_getbinval (tg_trigtuple td) (rd_att (tg_relation td)) a)
                               (spec_common_columns (rd_att hrel) (rd_att (tg_relation td)) 0))]"
      by (elim exE conjE)
    have "deserialize_system_period ?old example_R 3 ''valid_time'' = Inr (?lb, ?ub)"
      by (simp add: deserialize_system_period_def host_defs example_defs)
    with d have lb: "lb = ?lb" by (simp add: tup rel)
    from o oh have hrel: "hrel = example_R_hist" by simp
    from rows have "map snd (history_rows s')
                      = [[Some (OtherDatum ''1''), Some (OtherDatum ''a''), Some (RangeDatum r)]]"
      unfolding hrel rel tup common by (auto simp: vals initial_session_def)
    moreover from t have "now = GetCurrentTransactionStartTimestamp env"
      by (simp add: get_system_time_def get_current_temporal_context_def initial_session_def
            PG_init_def)
    with r cfg have "r = (if sint (1000 :: TimestampTz) < sint (GetCurrentTransactionStartTimestamp env)
                        then NonEmptyRange (Bounded 1000 True)
                               (Bounded (GetCurrentTransactionStartTimestamp env) False)
                        else NonEmptyRange (Bounded 1000 True) (Bounded 1001 False))"
      by (simp add: lb serialize_bound_def initial_session_def)
    ultimately have "map snd (history_rows s')
       = [[Some (OtherDatum ''1''), Some (OtherDatum ''a''),
           Some (RangeDatum
             (if sint (1000 :: TimestampTz) < sint (GetCurrentTransactionStartTimestamp env)
              then NonEmptyRange (Bounded 1000 True)
                     (Bounded (GetCurrentTransactionStartTimestamp env) False)
              else NonEmptyRange (Bounded 1000 True) (Bounded 1001 False)))]]"
      by (simp only:)
  }
  note inst = this
  let ?td14 = "example_trigdata 14 ?old (Some (example_row 0 ''b'' None)) ''true''"
  let ?td13 = "example_trigdata 13 ?old None ''true''"
  have nm14: "\<not> modified_in_current_transaction (example_host 2000 10) (tg_trigtuple ?td14)"
    by (simp add: modified_in_current_transaction_def example_defs)
  have nm13: "\<not> modified_in_current_transaction (example_host 500 10) (tg_trigtuple ?td13)"
    by (simp add: modified_in_current_transaction_def example_defs)
  have ok14: "versioning_update (example_host 2000 10) ?td14 example_typcache 3 ''valid_time''
                ''r_hist'' ''true'' initial_session
              = (Inr (Some (example_row 0 ''b'' (Some (NonEmptyRange (Bounded 2000 True) Unbounded)))),
                 snd (versioning_update (example_host 2000 10) ?td14 example_typcache 3
                        ''valid_time'' ''r_hist'' ''true'' initial_session))"
    by (simp add: versioning_defs host_defs example_defs example_entry_def Let_def upt_rec)
  have ok13: "versioning_delete (example_host 500 10) ?td13 example_typcache 3 ''valid_time''
                ''r_hist'' ''true'' initial_session
              = (Inr (Some ?old),
                 snd (versioning_delete (example_host 500 10) ?td13 example_typcache 3
                        ''valid_time'' ''r_hist'' ''true'' initial_session))"
    by (simp add: versioning_defs host_defs example_defs example_entry_def Let_def upt_rec)
  show "map snd (history_rows (snd (versioning_update (example_host 2000 10) ?td14
          example_typcache 3 ''valid_time'' ''r_hist'' ''true'' initial_session)))
     = [[Some (OtherDatum ''1''), Some (OtherDatum ''a''),
         Some (RangeDatum (NonEmptyRange (Bounded 1000 True) (Bounded 2000 False)))]]"
    using inst [OF nm14 disjI1 [OF ok14]]
    by (simp add: example_trigdata_def example_host_def)
  show "map snd (history_rows (snd (versioning_delete (example_host 500 10) ?td13
          example_typcache 3 ''valid_time'' ''r_hist'' ''true'' initial_session)))
     = [[Some (OtherDatum ''1''), Some (OtherDatum ''a''),
         Some (RangeDatum (NonEmptyRange (Bounded 1000 True) (Bounded 1001 False)))]]"
    using inst [OF nm13 disjI2 [OF ok13]]
    by (simp add: example_trigdata_def example_host_def)
next
  let ?old = "example_row 9 ''a'' (Some (NonEmptyRange (Bounded 9007199254740992 True) Unbounded))"
  let ?lb = "\<lparr>val = 9007199254740992, infinite_bound = False, inclusive = True, lower = True\<rparr>"
  let ?ub = "\<lparr>val = 0, infinite_bound = True, inclusive = False, lower = False\<rparr>"
  let ?env = "example_float_host 500 10"
  let ?td = "example_trigdata 13 ?old None ''true''"
  have common: "spec_common_columns (rd_att example_R_hist) (rd_att example_R) 0
                  = [(1, 1, ''id''), (2, 2, ''data''), (3, 3, ''valid_time'')]"
    by (simp add: host_defs example_defs)
  have vals: "SPI_getbinval ?old (rd_att example_R) 1 = Some (OtherDatum ''1'')"
    "SPI_getbinval ?old (rd_att example_R) 2 = Some (OtherDatum ''a'')"
    by (simp_all add: host_defs example_defs)
  have large: "float8_round 9007199254740993 = 9007199254740992"
    "float8_next_above 9007199254740992 = 9007199254740994"
    by (simp_all add: float8_round_def float8_next_above_def float8_spacing.simps Let_def)
  have tup: "tg_trigtuple ?td = ?old" and rel: "tg_relation ?td = example_R"
    by (simp_all add: example_trigdata_def)
  have nm: "\<not> modified_in_current_transaction ?env (tg_trigtuple ?td)"
    by (simp add: modified_in_current_transaction_def example_defs example_float_host_def)
  have ok: "versioning_update ?env ?td example_typcache 3 ''valid_time'' ''r_hist'' ''true''
                initial_session
              = (Inr (Some ?old),
                 snd (versioning_delete ?env ?td example_typcache 3
                        ''valid_time'' ''r_hist'' ''true'' initial_session))
            \<or> versioning_delete ?env ?td example_typcache 3 ''valid_time'' ''r_hist'' ''true''
                initial_session
              = (Inr (Some ?old),
                 snd (versioning_delete ?env ?td example_typcache 3
                        ''valid_time'' ''r_hist'' ''true'' initial_session))"
    by (rule disjI2)
      (simp add: versioning_defs host_defs example_defs example_float_host_def example_entry_def
         large Let_def upt_rec)
  from C10_history_row_frame [OF cache_consistent_initial_session nm ok]
  obtain lb ub0 now r hrel where
    d: "deserialize_system_period (tg_trigtuple ?td) (tg_relation ?td) 3 ''valid_time''
          = Inr (lb, ub0)"
    and t: "get_system_time (GetCurrentTransactionStartTimestamp ?env)
              (GetCurrentSubTransactionId ?env) (temporal_contexts initial_session) = Some now"
    and c: "\<not> (infinite_bound lb \<or> sint (val lb) < sint now) \<longrightarrow>
              parse_adjust_argument ''true'' = Inr True \<and>
              ((if integer_datetimes_set initial_session then integer_datetimes initial_session
                else GetConfigOption_integer_datetimes ?env = ''on'') \<longrightarrow>
                 val lb \<noteq> INT64_MAX \<and> sint (val lb + 1) = sint (val lb) + 1) \<and>
              (\<not> (if integer_datetimes_set initial_session then integer_datetimes initial_session
                   else GetConfigOption_integer_datetimes ?env = ''on'') \<longrightarrow>
                 (let ts = float8_of_timestamp ?env (val lb);
                      next_ts = timestamp_of_float8 ?env
                                  (if float8_ne ?env (float8_plus_1E_06 ?env ts) ts
                                   then float8_plus_1E_06 ?env ts
                                   else nextafter_DBL_MAX ?env ts)
                  in sint (val lb) \<le> sint next_ts \<and>
                     (\<forall>float8_lt. float8_successor_spec ?env float8_lt ts \<and> \<not> float8_lt ts ts \<longrightarrow>
                        r = NonEmptyRange (serialize_bound lb) (Bounded next_ts False))))"
    and oh: "heap_openrv ?env ''r_hist'' = Some hrel"
    and rows: "if spec_common_columns (rd_att hrel) (rd_att (tg_relation ?td)) 0 = []
          then history_rows (snd (versioning_delete ?env ?td example_typcache 3
                        ''valid_time'' ''r_hist'' ''true'' initial_session))
                 = history_rows initial_session
          else \<exists>plan. plan_attnames plan
                        = map (\<lambda>(_, _, name). name)
                            (spec_common_columns (rd_att hrel) (rd_att (tg_relation ?td)) 0) \<and>
                 history_rows (snd (versioning_delete ?env ?td example_typcache 3
                        ''valid_time'' ''r_hist'' ''true'' initial_session))
                   = history_rows initial_session @
                   [(plan, map (\<lambda>(a, _, _). if a = 3 then Some (RangeDatum r)
                                 else SPI_getbinval (tg_trigtuple ?td) (rd_att (tg_relation ?td)) a)
                             (spec_common_columns (rd_att hrel) (rd_att (tg_relation ?td)) 0))]"
    by (elim exE conjE)
  have "deserialize_system_period ?old example_R 3 ''valid_time'' = Inr (?lb, ?ub)"
    by (simp add: deserialize_system_period_def host_defs example_defs)
  with d have lb: "lb = ?lb" by (simp only: tup rel) simp
  from oh have hrel: "hrel = example_R_hist" by (simp add: example_float_host_def)
  from t have now: "now = 500"
    by (simp add: get_system_time_def get_current_temporal_context_def initial_session_def
          PG_init_def example_float_host_def)
  have sp: "float8_successor_spec ?env (<) (float8_of_timestamp ?env (val ?lb)) \<and>
            \<not> float8_of_timestamp ?env (val ?lb) < float8_of_timestamp ?env (val ?lb)"
    by (simp add: float8_successor_spec_def example_float_host_def large)
  from c have "\<forall>float8_lt. float8_successor_spec ?env float8_lt (float8_of_timestamp ?env (val ?lb)) \<and>
                 \<not> float8_lt (float8_of_timestamp ?env (val ?lb)) (float8_of_timestamp ?env (val ?lb)) \<longrightarrow>
                 r = NonEmptyRange (Bounded 9007199254740992 True) (Bounded 9007199254740994 False)"
    unfolding lb now
    by (simp add: initial_session_def example_float_host_def Let_def large serialize_bound_def)
  from this [THEN spec [where x = "(<)"], rule_format, OF sp]
  have r: "r = NonEmptyRange (Bounded 9007199254740992 True) (Bounded 9007199254740994 False)" .
  from rows show "map snd (history_rows (snd (versioning_delete ?env ?td
          example_typcache 3 ''valid_time'' ''r_hist'' ''true'' initial_session)))
     = [[Some (OtherDatum ''1''), Some (OtherDatum ''a''),
         Some (RangeDatum (NonEmptyRange (Bounded 9007199254740992 True)
                             (Bounded 9007199254740994 False)))]]"
    unfolding hrel rel tup common r by (auto simp: vals initial_session_def)
qed

subsection \<open>Insert, update and delete without a conflict\<close>

lemmas host_row_defs =
  ExecInsert_def ExecUpdate_def ExecDelete_def before_row_trigger_def example_scenario_def

lemma serialize_deserialize_bound [simp]: "serialize_bound (deserialize_bound l b) = b"
  by (cases b) (simp_all add: serialize_bound_def)

lemma period_column_common:
  assumes "0 < SPI_fnumber td pname" "0 \<le> SPI_fnumber htd pname"
  shows "(SPI_fnumber td pname, SPI_fnumber htd pname, pname) \<in> set (spec_common_columns htd td 0)"
proof -
  from SPI_fnumber_positive [OF assms(1)] obtain j where
    j: "j < length td" "SPI_fnumber td pname = int j + 1" "attname (td ! j) = pname"
       "\<not> attisdropped (td ! j)" by (elim exE conjE)
  from spec_common_columns_complete [OF j(1) j(4), of htd 0] assms(2) j(2,3)
  show ?thesis by simp
qed

lemma deserialize_system_period_stored:
  assumes "SPI_getbinval tuple (rd_att rel) n = Some (RangeDatum (NonEmptyRange lbs Unbounded))"
  shows "deserialize_system_period tuple rel n pname
           = Inr (deserialize_bound True lbs, deserialize_bound False Unbounded)"
  using assms by (simp add: deserialize_system_period_def)

lemma scenario_general:
  assumes "sint t0 < sint t1" "sint t1 < sint t2"
  shows "example_scenario t0 t1 t2 =
     Inr \<lparr>db_session = initial_session
            \<lparr>versioning_cache := (\<lambda>_. None)(16384 \<mapsto> example_entry),
             history_rows :=
               [(example_plan, [Some (OtherDatum ''1''), Some (OtherDatum ''a''),
                   Some (RangeDatum (NonEmptyRange (Bounded t0 True) (Bounded t1 False)))]),
                (example_plan, [Some (OtherDatum ''1''), Some (OtherDatum ''b''),
                   Some (RangeDatum (NonEmptyRange (Bounded t1 True) (Bounded t2 False)))])]\<rparr>,
          live_rows = []\<rparr>"
  using assms
  by (simp add: host_row_defs versioning_defs host_defs example_defs example_entry_def
        trigger_event_defs Let_def upt_rec)


lemma archive_old_row_no_conflict:
  assumes cc: "cache_consistent s"
      and stored: "SPI_getbinval tuple (rd_att rel) n
                     = Some (RangeDatum (NonEmptyRange lbs Unbounded))"
      and now: "get_system_time (GetCurrentTransactionStartTimestamp env)
                  (GetCurrentSubTransactionId env) (temporal_contexts s) = Some now"
      and gt: "\<forall>lo inc. lbs = Bounded lo inc \<longrightarrow> sint lo < sint now"
      and n: "n = SPI_fnumber (rd_att rel) pname" "0 < n"
      and o: "heap_openrv env hname = Some hrel"
      and hp: "0 \<le> SPI_fnumber (rd_att hrel) pname"
      and a: "archive_old_row env tuple rel n pname hname adj s = (Inr (lb, ub), s')"
  shows "val ub = now"
    and "\<exists>plan. plan_attnames plan
                  = map (\<lambda>(_, _, name). name) (spec_common_columns (rd_att hrel) (rd_att rel) 0) \<and>
           history_rows s' = history_rows s @
             [(plan, map (\<lambda>(a, _, _). if a = n
                            then Some (RangeDatum (NonEmptyRange lbs (Bounded now False)))
                            else SPI_getbinval tuple (rd_att rel) a)
                       (spec_common_columns (rd_att hrel) (rd_att rel) 0))]"
proof -
  let ?lb = "deserialize_bound True lbs"
  let ?ub1 = "(deserialize_bound False Unbounded)\<lparr>val := now, infinite_bound := False,
                inclusive := False\<rparr>"
  note d = deserialize_system_period_stored [OF stored, of pname]
  have lbs: "infinite_bound ?lb \<or> sint (val ?lb) < sint now"
    using gt by (cases lbs) simp_all
  have nc: "adjust_system_period env ?lb ?ub1 adj rel s = (Inr ?ub1, s)"
    using lbs by (intro adjust_system_period_no_conflict) simp_all
  from archive_old_row_Inr [OF a] obtain ub0 now' s1 where
    d': "deserialize_system_period tuple rel n pname = Inr (lb, ub0)"
    and now': "get_system_time (GetCurrentTransactionStartTimestamp env)
       (GetCurrentSubTransactionId env) (temporal_contexts s) = Some now'"
    and adj': "adjust_system_period env lb (ub0\<lparr>val := now', infinite_bound := False, inclusive := False\<rparr>)
       adj rel s = (Inr ub, s1)"
    by (elim exE conjE)
  from d d' have lb: "lb = ?lb" and ub0: "ub0 = deserialize_bound False Unbounded" by simp_all
  from now now' have n': "now' = now" by simp
  from adj' have "adjust_system_period env ?lb ?ub1 adj rel s = (Inr ub, s1)"
    unfolding lb ub0 n' .
  with nc have "(Inr ?ub1, s) = (Inr ub :: error + RangeBound, s1)" by (simp only:)
  then have ub: "ub = ?ub1" by (simp only: prod.inject sum.inject)
  show v: "val ub = now" by (simp add: ub)
  from archive_old_row_history [OF cc a] obtain ub0' r hrel' where
    h: "deserialize_system_period tuple rel n pname = Inr (lb, ub0') \<and>
        make_range lb ub = Inr r \<and>
        r = (if \<not> infinite_bound lb \<and> val lb = val ub then EmptyRange
             else NonEmptyRange (serialize_bound lb) (Bounded (val ub) False)) \<and>
        heap_openrv env hname = Some hrel' \<and>
        (if spec_common_columns (rd_att hrel') (rd_att rel) 0 = []
         then history_rows s' = history_rows s
         else \<exists>plan. plan_attnames plan
                       = map (\<lambda>(_, _, name). name) (spec_common_columns (rd_att hrel') (rd_att rel) 0) \<and>
                history_rows s' = history_rows s @
                  [(plan, map (\<lambda>(a, _, _). if a = n then Some (RangeDatum r)
                                           else SPI_getbinval tuple (rd_att rel) a)
                            (spec_common_columns (rd_att hrel') (rd_att rel) 0))])"
    by (elim exE)
  from h o have hrel: "hrel' = hrel" by simp
  have ne: "\<not> (\<not> infinite_bound lb \<and> val lb = val ub)"
    using gt by (cases lbs) (auto simp: lb ub)
  from h ne have r: "r = NonEmptyRange lbs (Bounded now False)"
    by (simp add: lb v)
  from period_column_common [of "rd_att rel" pname "rd_att hrel"] n hp
  have "spec_common_columns (rd_att hrel) (rd_att rel) 0 \<noteq> []" by auto
  with h show "\<exists>plan. plan_attnames plan
                  = map (\<lambda>(_, _, name). name) (spec_common_columns (rd_att hrel) (rd_att rel) 0) \<and>
           history_rows s' = history_rows s @
             [(plan, map (\<lambda>(a, _, _). if a = n
                            then Some (RangeDatum (NonEmptyRange lbs (Bounded now False)))
                            else SPI_getbinval tuple (rd_att rel) a)
                       (spec_common_columns (rd_att hrel) (rd_att rel) 0))]"
    unfolding hrel r by simp
qed


lemma archive_old_row_bounds:
  assumes "archive_old_row env tuple rel n pname hname adj s = (Inr (lb, ub), s')"
  shows "lower lb" "\<not> lower ub"
proof -
  from archive_old_row_Inr [OF assms] obtain ub0 now s1 where
    d: "deserialize_system_period tuple rel n pname = Inr (lb, ub0)"
    and adj: "adjust_system_period env lb (ub0\<lparr>val := now, infinite_bound := False, inclusive := False\<rparr>)
       adj rel s = (Inr ub, s1)"
    by (elim exE conjE)
  from deserialize_system_period_bounds [OF d] show "lower lb" by simp
  from deserialize_system_period_bounds [OF d] adjust_system_period_bound(3) [OF adj]
  show "\<not> lower ub" by simp
qed

lemma versioning_update_Inr:
  assumes nm: "\<not> modified_in_current_transaction env (tg_trigtuple td)"
      and u: "versioning_update env td tc n pname hname adj s = (Inr res, s')"
  shows "\<exists>lb ub new t.
           archive_old_row env (tg_trigtuple td) (tg_relation td) n pname hname adj s
             = (Inr (lb, ub), s') \<and>
           tg_newtuple td = Some new \<and>
           modify_tuple (tg_relation td) new n (NonEmptyRange (Bounded (val ub) True) Unbounded)
             = Inr t \<and>
           res = Some t"
proof -
  from nm u obtain lb ub s2 where
    a: "archive_old_row env (tg_trigtuple td) (tg_relation td) n pname hname adj s
          = (Inr (lb, ub), s2)"
    by (auto simp: versioning_update_def Let_def split: sum.splits prod.splits)
  note b = archive_old_row_bounds [OF a]
  have mr: "make_range (lb\<lparr>val := val ub, infinite_bound := False, inclusive := True\<rparr>)
              (ub\<lparr>infinite_bound := True, inclusive := False\<rparr>)
            = Inr (NonEmptyRange (Bounded (val ub) True) Unbounded)"
    using b by (simp add: make_range_def range_cmp_bound_values_def serialize_bound_def)
  from nm u a mr obtain new t where
    "tg_newtuple td = Some new"
    "modify_tuple (tg_relation td) new n (NonEmptyRange (Bounded (val ub) True) Unbounded) = Inr t"
    "res = Some t" "s' = s2"
    by (auto simp: versioning_update_def Let_def split: sum.splits option.splits)
  with a show ?thesis by (intro exI [of _ lb] exI [of _ ub] exI [of _ new] exI [of _ t]) simp
qed

lemma versioning_delete_Inr:
  assumes nm: "\<not> modified_in_current_transaction env (tg_trigtuple td)"
      and u: "versioning_delete env td tc n pname hname adj s = (Inr res, s')"
  shows "\<exists>lb ub.
           archive_old_row env (tg_trigtuple td) (tg_relation td) n pname hname adj s
             = (Inr (lb, ub), s') \<and>
           res = Some (tg_trigtuple td)"
  using assms
  by (auto simp: versioning_delete_def Let_def split: sum.splits prod.splits)


lemma modify_tuple_getbinval:
  assumes "modify_tuple rel tuple n r = Inr t"
  shows "SPI_getbinval t (rd_att rel) n = Some (RangeDatum r) \<and>
         (\<forall>a. a \<noteq> n \<longrightarrow> SPI_getbinval t (rd_att rel) a = SPI_getbinval tuple (rd_att rel) a)"
  using SPI_getbinval_modify_tuple(1) [OF assms, where x = "t_xmin t"]
    SPI_getbinval_modify_tuple(2) [OF assms, where x = "t_xmin t"]
  by simp

text \<open>
  Claim C1. Let \<open>now\<close> be the system time of the call. A successful insert leaves the
  session as it is and returns the row with its period set to the interval from \<open>now\<close>
  on, and nothing else changed. Take a row not modified in the current transaction,
  whose stored period has the lower bound \<open>lbs\<close>, below \<open>now\<close>, and no upper bound,
  in a relation whose history relation has the period column, from a consistent
  cache. A successful update has archived exactly one history row, with the old
  values of the common columns and the period from \<open>lbs\<close> to \<open>now\<close>, the period
  column being one of the common columns, and returns the new row with the period from
  \<open>now\<close> on and nothing else changed. A successful delete has archived the same row
  and returns the old row, so that the deletion proceeds. On the relations \<open>r\<close> and
  \<open>r_hist\<close>, inserting at \<open>t0\<close>, updating at \<open>t1\<close> and deleting at \<open>t2\<close>
  succeeds and leaves the two history rows with the periods from \<open>t0\<close> to \<open>t1\<close> and
  from \<open>t1\<close> to \<open>t2\<close>, and no live row.
\<close>

theorem C1_insert_update_delete:
  assumes now: "get_system_time (GetCurrentTransactionStartTimestamp env)
                  (GetCurrentSubTransactionId env) (temporal_contexts s) = Some now"
  shows
    "(\<forall>res s'. versioning_insert env td tc n s = (Inr res, s') \<longrightarrow>
        s' = s \<and>
        (\<exists>t. res = Some t \<and>
           SPI_getbinval t (rd_att (tg_relation td)) n
             = Some (RangeDatum (NonEmptyRange (Bounded now True) Unbounded)) \<and>
           (\<forall>a. a \<noteq> n \<longrightarrow>
              SPI_getbinval t (rd_att (tg_relation td)) a
                = SPI_getbinval (tg_trigtuple td) (rd_att (tg_relation td)) a)))
     \<and> (cache_consistent s
         \<and> \<not> modified_in_current_transaction env (tg_trigtuple td)
         \<and> n = SPI_fnumber (rd_att (tg_relation td)) pname \<and> 0 < n
         \<and> SPI_getbinval (tg_trigtuple td) (rd_att (tg_relation td)) n
             = Some (RangeDatum (NonEmptyRange lbs Unbounded))
         \<and> (\<forall>lo inc. lbs = Bounded lo inc \<longrightarrow> sint lo < sint now)
         \<and> heap_openrv env hname = Some hrel
         \<and> 0 \<le> SPI_fnumber (rd_att hrel) pname \<longrightarrow>
         (\<forall>res s'. versioning_update env td tc n pname hname adj s = (Inr res, s') \<longrightarrow>
            (\<exists>plan. plan_attnames plan
                    = map (\<lambda>(_, _, name). name)
                        (spec_common_columns (rd_att hrel) (rd_att (tg_relation td)) 0) \<and>
                history_rows s' = history_rows s @
                  [(plan, map (\<lambda>(a, _, _). if a = n
                                 then Some (RangeDatum (NonEmptyRange lbs (Bounded now False)))
                                 else SPI_getbinval (tg_trigtuple td) (rd_att (tg_relation td)) a)
                            (spec_common_columns (rd_att hrel) (rd_att (tg_relation td)) 0))]) \<and>
            (\<exists>new t. tg_newtuple td = Some new \<and> res = Some t \<and>
               SPI_getbinval t (rd_att (tg_relation td)) n
                 = Some (RangeDatum (NonEmptyRange (Bounded now True) Unbounded)) \<and>
               (\<forall>a. a \<noteq> n \<longrightarrow>
                  SPI_getbinval t (rd_att (tg_relation td)) a
                    = SPI_getbinval new (rd_att (tg_relation td)) a)))
         \<and> (\<forall>res s'. versioning_delete env td tc n pname hname adj s = (Inr res, s') \<longrightarrow>
            (\<exists>plan. plan_attnames plan
                    = map (\<lambda>(_, _, name). name)
                        (spec_common_columns (rd_att hrel) (rd_att (tg_relation td)) 0) \<and>
                history_rows s' = history_rows s @
                  [(plan, map (\<lambda>(a, _, _). if a = n
                                 then Some (RangeDatum (NonEmptyRange lbs (Bounded now False)))
                                 else SPI_getbinval (tg_trigtuple td) (rd_att (tg_relation td)) a)
                            (spec_common_columns (rd_att hrel) (rd_att (tg_relation td)) 0))]) \<and> res = Some (tg_trigtuple td))
         \<and> (n, SPI_fnumber (rd_att hrel) pname, pname)
             \<in> set (spec_common_columns (rd_att hrel) (rd_att (tg_relation td)) 0))
     \<and> (\<forall>t0 t1 t2. sint t0 < sint t1 \<and> sint t1 < sint t2 \<longrightarrow>
          example_scenario t0 t1 t2 =
            Inr \<lparr>db_session = initial_session
                   \<lparr>versioning_cache := (\<lambda>_. None)(16384 \<mapsto> example_entry),
                    history_rows :=
                      [(example_plan, [Some (OtherDatum ''1''), Some (OtherDatum ''a''),
                          Some (RangeDatum (NonEmptyRange (Bounded t0 True) (Bounded t1 False)))]),
                       (example_plan, [Some (OtherDatum ''1''), Some (OtherDatum ''b''),
                          Some (RangeDatum (NonEmptyRange (Bounded t1 True) (Bounded t2 False)))])]\<rparr>,
                 live_rows = []\<rparr>)"
proof (intro conjI)
  show "\<forall>res s'. versioning_insert env td tc n s = (Inr res, s') \<longrightarrow>
        s' = s \<and>
        (\<exists>t. res = Some t \<and>
           SPI_getbinval t (rd_att (tg_relation td)) n
             = Some (RangeDatum (NonEmptyRange (Bounded now True) Unbounded)) \<and>
           (\<forall>a. a \<noteq> n \<longrightarrow>
              SPI_getbinval t (rd_att (tg_relation td)) a
                = SPI_getbinval (tg_trigtuple td) (rd_att (tg_relation td)) a))"
  proof (intro allI impI)
    fix res s'
    assume i: "versioning_insert env td tc n s = (Inr res, s')"
    then obtain t where res: "res = Some t"
      by (auto simp: versioning_insert_def Let_def split: option.splits sum.splits)
    note p = versioning_insert_period [OF i [unfolded res] now]
    from p(2) res modify_tuple_getbinval [OF p(3)]
    show "s' = s \<and>
        (\<exists>t. res = Some t \<and>
           SPI_getbinval t (rd_att (tg_relation td)) n
             = Some (RangeDatum (NonEmptyRange (Bounded now True) Unbounded)) \<and>
           (\<forall>a. a \<noteq> n \<longrightarrow>
              SPI_getbinval t (rd_att (tg_relation td)) a
                = SPI_getbinval (tg_trigtuple td) (rd_att (tg_relation td)) a))"
      by simp
  qed
next
  show "cache_consistent s
         \<and> \<not> modified_in_current_transaction env (tg_trigtuple td)
         \<and> n = SPI_fnumber (rd_att (tg_relation td)) pname \<and> 0 < n
         \<and> SPI_getbinval (tg_trigtuple td) (rd_att (tg_relation td)) n
             = Some (RangeDatum (NonEmptyRange lbs Unbounded))
         \<and> (\<forall>lo inc. lbs = Bounded lo inc \<longrightarrow> sint lo < sint now)
         \<and> heap_openrv env hname = Some hrel
         \<and> 0 \<le> SPI_fnumber (rd_att hrel) pname \<longrightarrow>
         (\<forall>res s'. versioning_update env td tc n pname hname adj s = (Inr res, s') \<longrightarrow>
            (\<exists>plan. plan_attnames plan
                    = map (\<lambda>(_, _, name). name)
                        (spec_common_columns (rd_att hrel) (rd_att (tg_relation td)) 0) \<and>
                history_rows s' = history_rows s @
                  [(plan, map (\<lambda>(a, _, _). if a = n
                                 then Some (RangeDatum (NonEmptyRange lbs (Bounded now False)))
                                 else SPI_getbinval (tg_trigtuple td) (rd_att (tg_relation td)) a)
                            (spec_common_columns (rd_att hrel) (rd_att (tg_relation td)) 0))]) \<and>
            (\<exists>new t. tg_newtuple td = Some new \<and> res = Some t \<and>
               SPI_getbinval t (rd_att (tg_relation td)) n
                 = Some (RangeDatum (NonEmptyRange (Bounded now True) Unbounded)) \<and>
               (\<forall>a. a \<noteq> n \<longrightarrow>
                  SPI_getbinval t (rd_att (tg_relation td)) a
                    = SPI_getbinval new (rd_att (tg_relation td)) a)))
         \<and> (\<forall>res s'. versioning_delete env td tc n pname hname adj s = (Inr res, s') \<longrightarrow>
            (\<exists>plan. plan_attnames plan
                    = map (\<lambda>(_, _, name). name)
                        (spec_common_columns (rd_att hrel) (rd_att (tg_relation td)) 0) \<and>
                history_rows s' = history_rows s @
                  [(plan, map (\<lambda>(a, _, _). if a = n
                                 then Some (RangeDatum (NonEmptyRange lbs (Bounded now False)))
                                 else SPI_getbinval (tg_trigtuple td) (rd_att (tg_relation td)) a)
                            (spec_common_columns (rd_att hrel) (rd_att (tg_relation td)) 0))]) \<and> res = Some (tg_trigtuple td))
         \<and> (n, SPI_fnumber (rd_att hrel) pname, pname)
             \<in> set (spec_common_columns (rd_att hrel) (rd_att (tg_relation td)) 0)"
  proof (intro impI, elim conjE, intro conjI allI impI)
    assume cc: "cache_consistent s"
      and nm: "\<not> modified_in_current_transaction env (tg_trigtuple td)"
      and n: "n = SPI_fnumber (rd_att (tg_relation td)) pname" "0 < n"
      and stored: "SPI_getbinval (tg_trigtuple td) (rd_att (tg_relation td)) n
             = Some (RangeDatum (NonEmptyRange lbs Unbounded))"
      and gt: "\<forall>lo inc. lbs = Bounded lo inc \<longrightarrow> sint lo < sint now"
      and o: "heap_openrv env hname = Some hrel"
      and hp: "0 \<le> SPI_fnumber (rd_att hrel) pname"
    note nc = archive_old_row_no_conflict [OF cc stored now gt n o hp]
    show "(n, SPI_fnumber (rd_att hrel) pname, pname)
             \<in> set (spec_common_columns (rd_att hrel) (rd_att (tg_relation td)) 0)"
      using period_column_common [of "rd_att (tg_relation td)" pname "rd_att hrel"] n hp by simp
    {
      fix res s'
      assume u: "versioning_update env td tc n pname hname adj s = (Inr res, s')"
      from versioning_update_Inr [OF nm u] obtain lb ub new t where
        a: "archive_old_row env (tg_trigtuple td) (tg_relation td) n pname hname adj s
              = (Inr (lb, ub), s')"
        and new: "tg_newtuple td = Some new"
        and mt: "modify_tuple (tg_relation td) new n
                   (NonEmptyRange (Bounded (val ub) True) Unbounded) = Inr t"
        and res: "res = Some t"
        by (elim exE conjE)
      show "(\<exists>plan. plan_attnames plan
                    = map (\<lambda>(_, _, name). name)
                        (spec_common_columns (rd_att hrel) (rd_att (tg_relation td)) 0) \<and>
                history_rows s' = history_rows s @
                  [(plan, map (\<lambda>(a, _, _). if a = n
                                 then Some (RangeDatum (NonEmptyRange lbs (Bounded now False)))
                                 else SPI_getbinval (tg_trigtuple td) (rd_att (tg_relation td)) a)
                            (spec_common_columns (rd_att hrel) (rd_att (tg_relation td)) 0))])" by (rule nc(2) [OF a])
      from new res modify_tuple_getbinval [OF mt] nc(1) [OF a]
      show "\<exists>new t. tg_newtuple td = Some new \<and> res = Some t \<and>
               SPI_getbinval t (rd_att (tg_relation td)) n
                 = Some (RangeDatum (NonEmptyRange (Bounded now True) Unbounded)) \<and>
               (\<forall>a. a \<noteq> n \<longrightarrow>
                  SPI_getbinval t (rd_att (tg_relation td)) a
                    = SPI_getbinval new (rd_att (tg_relation td)) a)"
        by simp
    }
    {
      fix res s'
      assume u: "versioning_delete env td tc n pname hname adj s = (Inr res, s')"
      from versioning_delete_Inr [OF nm u] obtain lb ub where
        a: "archive_old_row env (tg_trigtuple td) (tg_relation td) n pname hname adj s
              = (Inr (lb, ub), s')"
        and res: "res = Some (tg_trigtuple td)"
        by (elim exE conjE)
      show "(\<exists>plan. plan_attnames plan
                    = map (\<lambda>(_, _, name). name)
                        (spec_common_columns (rd_att hrel) (rd_att (tg_relation td)) 0) \<and>
                history_rows s' = history_rows s @
                  [(plan, map (\<lambda>(a, _, _). if a = n
                                 then Some (RangeDatum (NonEmptyRange lbs (Bounded now False)))
                                 else SPI_getbinval (tg_trigtuple td) (rd_att (tg_relation td)) a)
                            (spec_common_columns (rd_att hrel) (rd_att (tg_relation td)) 0))])" by (rule nc(2) [OF a])
      show "res = Some (tg_trigtuple td)" by (rule res)
    }
  qed
next
  show "\<forall>t0 t1 t2. sint t0 < sint t1 \<and> sint t1 < sint t2 \<longrightarrow>
          example_scenario t0 t1 t2 =
            Inr \<lparr>db_session = initial_session
                   \<lparr>versioning_cache := (\<lambda>_. None)(16384 \<mapsto> example_entry),
                    history_rows :=
                      [(example_plan, [Some (OtherDatum ''1''), Some (OtherDatum ''a''),
                          Some (RangeDatum (NonEmptyRange (Bounded t0 True) (Bounded t1 False)))]),
                       (example_plan, [Some (OtherDatum ''1''), Some (OtherDatum ''b''),
                          Some (RangeDatum (NonEmptyRange (Bounded t1 True) (Bounded t2 False)))])]\<rparr>,
                 live_rows = []\<rparr>"
    by (intro allI impI, elim conjE) (rule scenario_general)
qed


theorem C1_witness:
  "example_scenario 100 200 300 =
     Inr \<lparr>db_session = initial_session
            \<lparr>versioning_cache := (\<lambda>_. None)(16384 \<mapsto> example_entry),
             history_rows :=
               [(example_plan, [Some (OtherDatum ''1''), Some (OtherDatum ''a''),
                   Some (RangeDatum (NonEmptyRange (Bounded 100 True) (Bounded 200 False)))]),
                (example_plan, [Some (OtherDatum ''1''), Some (OtherDatum ''b''),
                   Some (RangeDatum (NonEmptyRange (Bounded 200 True) (Bounded 300 False)))])]\<rparr>,
          live_rows = []\<rparr>
   \<and> (3, SPI_fnumber (rd_att example_R_hist) ''valid_time'', ''valid_time'')
       \<in> set (spec_common_columns (rd_att example_R_hist) (rd_att example_R) 0)"
proof
  let ?td = "example_trigdata 14
          (example_row 9 ''a'' (Some (NonEmptyRange (Bounded 1000 True) Unbounded)))
          (Some (example_row 0 ''b'' None)) ''true''"
  have now: "get_system_time (GetCurrentTransactionStartTimestamp (example_host 2000 10))
               (GetCurrentSubTransactionId (example_host 2000 10))
               (temporal_contexts initial_session) = Some 2000"
    by (simp add: get_system_time_def get_current_temporal_context_def example_defs)
  have lt: "sint (100 :: TimestampTz) < sint (200 :: TimestampTz)
            \<and> sint (200 :: TimestampTz) < sint (300 :: TimestampTz)"
    by simp
  show "example_scenario 100 200 300 =
     Inr \<lparr>db_session = initial_session
            \<lparr>versioning_cache := (\<lambda>_. None)(16384 \<mapsto> example_entry),
             history_rows :=
               [(example_plan, [Some (OtherDatum ''1''), Some (OtherDatum ''a''),
                   Some (RangeDatum (NonEmptyRange (Bounded 100 True) (Bounded 200 False)))]),
                (example_plan, [Some (OtherDatum ''1''), Some (OtherDatum ''b''),
                   Some (RangeDatum (NonEmptyRange (Bounded 200 True) (Bounded 300 False)))])]\<rparr>,
          live_rows = []\<rparr>"
    by (rule C1_insert_update_delete [OF now, THEN conjunct2, THEN conjunct2, rule_format, OF lt])
  have hyp: "cache_consistent initial_session
         \<and> \<not> modified_in_current_transaction (example_host 2000 10) (tg_trigtuple ?td)
         \<and> 3 = SPI_fnumber (rd_att (tg_relation ?td)) ''valid_time'' \<and> (0 :: int) < 3
         \<and> SPI_getbinval (tg_trigtuple ?td) (rd_att (tg_relation ?td)) 3
             = Some (RangeDatum (NonEmptyRange (Bounded 1000 True) Unbounded))
         \<and> (\<forall>lo inc. Bounded 1000 True = Bounded lo inc \<longrightarrow> sint lo < sint (2000 :: TimestampTz))
         \<and> heap_openrv (example_host 2000 10) ''r_hist'' = Some example_R_hist
         \<and> 0 \<le> SPI_fnumber (rd_att example_R_hist) ''valid_time''"
    by (simp add: cache_consistent_def modified_in_current_transaction_def
          host_defs example_defs)
  have rel: "rd_att (tg_relation ?td) = rd_att example_R" by (simp add: example_trigdata_def)
  show "(3, SPI_fnumber (rd_att example_R_hist) ''valid_time'', ''valid_time'')
       \<in> set (spec_common_columns (rd_att example_R_hist) (rd_att example_R) 0)"
    using C1_insert_update_delete [OF now, THEN conjunct2, THEN conjunct1, THEN mp, OF hyp,
            THEN conjunct2, THEN conjunct2]
    unfolding rel .
qed

section \<open>The stack of contexts refines the log of sets\<close>

lemma spec_visible_Cons [simp]: "spec_visible (e # log) = snd e"
  by (simp add: spec_visible_def)

lemma spec_visible_map_relabel [simp]:
  "spec_visible (map (relabel_level s p) log) = spec_visible log"
  by (cases log) (simp_all add: spec_visible_def relabel_level_def)

lemma filter_all_below:
  "\<forall>e \<in> set log. fst e \<le> k \<Longrightarrow> filter (\<lambda>e. fst e \<le> k) log = log"
  by (induction log) auto

lemma filter_below_filter_level:
  fixes k s :: SubTransactionId
  shows "k < s \<Longrightarrow>
   filter (\<lambda>e. fst e \<le> k) (filter (\<lambda>e. fst e \<noteq> s) log) = filter (\<lambda>e. fst e \<le> k) log"
  by (induction log) auto

lemma filter_below_relabel:
  fixes k s p :: SubTransactionId
  shows "k < s \<Longrightarrow> k < p \<Longrightarrow>
   filter (\<lambda>e. fst e \<le> k) (map (relabel_level s p) log) = filter (\<lambda>e. fst e \<le> k) log"
  by (induction log) (auto simp: relabel_level_def)

lemma filter_below_Cons:
  fixes k s :: SubTransactionId
  shows "k < s \<Longrightarrow> filter (\<lambda>e. fst e \<le> k) ((s, v) # log) = filter (\<lambda>e. fst e \<le> k) log"
  by simp

lemma no_level_filter:
  "s \<notin> fst ` set log \<Longrightarrow> filter (\<lambda>e. fst e \<noteq> s) log = log"
  by (induction log) auto

lemma no_level_relabel:
  "s \<notin> fst ` set log \<Longrightarrow> map (relabel_level s p) log = log"
  by (induction log) (auto simp: relabel_level_def)

lemma sorted_filter_level:
  "sorted_wrt (\<ge>) (map fst log) \<Longrightarrow> sorted_wrt (\<ge>) (map fst (filter P log))"
  by (induction log) auto

lemma sorted_relabel:
  fixes s p :: SubTransactionId
  assumes "sorted_wrt (\<ge>) (map fst log)" "\<forall>e \<in> set log. fst e = s \<or> fst e \<le> p"
    and "\<forall>e \<in> set log. fst e \<le> s"
  shows "sorted_wrt (\<ge>) (map fst (map (relabel_level s p) log))"
  using assms
proof (induction log)
  case Nil
  then show ?case by simp
next
  case (Cons e log)
  then have "\<forall>x \<in> set log. fst (relabel_level s p x) \<le> fst (relabel_level s p e)"
    by (auto simp: relabel_level_def)
  with Cons show ?case by auto
qed

lemma image_fst_relabel:
  "fst ` set (map (relabel_level s p) log) \<subseteq> insert p (fst ` set log - {s})"
  by (auto simp: relabel_level_def)


lemma stack_inv_top:
  assumes "stack_inv active (c # stk') log"
  shows "\<forall>e \<in> set log. fst e \<le> subid c" and "\<forall>d \<in> set stk'. subid d < subid c"
    and "context_view c = spec_visible log"
proof -
  from assms have sorted: "sorted_wrt (>) (map subid (c # stk'))"
    and tags: "fst ` set log \<subseteq> subid ` set (c # stk')"
    and view: "context_view c = spec_visible (filter (\<lambda>e. fst e \<le> subid c) log)"
    by (simp_all add: stack_inv_def)
  from sorted show below: "\<forall>d \<in> set stk'. subid d < subid c" by auto
  show all: "\<forall>e \<in> set log. fst e \<le> subid c"
  proof
    fix e assume "e \<in> set log"
    with tags have "fst e \<in> subid ` set (c # stk')" by blast
    with below show "fst e \<le> subid c" by auto
  qed
  from view filter_all_below [OF all] show "context_view c = spec_visible log" by simp
qed

lemma stack_inv_nonempty: "stack_inv active stk log \<Longrightarrow> stk \<noteq> []"
  by (auto simp: stack_inv_def)

lemma stack_inv_reader:
  assumes "stack_inv active stk log"
  shows "\<exists>ctx. get_current_temporal_context False cur stk = Some (ctx, stk) \<and>
           context_view ctx = spec_visible log"
proof -
  from stack_inv_nonempty [OF assms] obtain c stk' where stk: "stk = c # stk'"
    by (cases stk) auto
  from stack_inv_top(3) [OF assms [unfolded stk]] stk show ?thesis
    by (simp add: get_current_temporal_context_def)
qed

lemma context_view_set [simp]:
  "context_view (c\<lparr>system_time_mode := CurrentTransactionStartTimestamp\<rparr>) = None"
  "context_view (c\<lparr>system_time_mode := UserDefined, system_time := ts\<rparr>) = Some ts"
  "context_view (c\<lparr>subid := k\<rparr>) = context_view c"
  by (simp_all add: context_view_def split: SystemTimeMode.splits)

lemma stack_inv_set_system_time:
  assumes inv: "stack_inv (s # act) stk log"
  shows "\<exists>stk'. set_system_time v s stk = Some stk' \<and> stack_inv (s # act) stk' ((s, v) # log)"
proof -
  from stack_inv_nonempty [OF inv] obtain c rest where stk: "stk = c # rest"
    by (cases stk) auto
  note top = stack_inv_top [OF inv [unfolded stk]]
  from inv have act: "sorted_wrt (>) (s # act)" "0 \<notin> set (s # act)"
    and sorted: "sorted_wrt (>) (map subid (c # rest))"
    and root: "0 \<in> subid ` set (c # rest)"
    and sub: "subid ` set (c # rest) \<subseteq> insert 0 (set (s # act))"
    and tags: "fst ` set log \<subseteq> subid ` set (c # rest)"
    and lsorted: "sorted_wrt (\<ge>) (map fst log)"
    and views: "\<forall>d \<in> set (c # rest). context_view d = spec_visible (filter (\<lambda>e. fst e \<le> subid d) log)"
    by (simp_all add: stack_inv_def stk)
  from act have s0: "0 < s" by (simp add: word_neq_0_conv [symmetric]) 
  have cs: "subid c \<le> s"
  proof -
    from sub have "subid c = 0 \<or> subid c = s \<or> subid c \<in> set act" by auto
    with act(1) show ?thesis by auto
  qed
  define new where "new = (case v of None \<Rightarrow> c\<lparr>subid := s, system_time_mode := CurrentTransactionStartTimestamp\<rparr>
                           | Some ts \<Rightarrow> c\<lparr>subid := s, system_time_mode := UserDefined, system_time := ts\<rparr>)"
  have new: "subid new = s" "context_view new = v"
    by (cases v; simp add: new_def context_view_def)+
  define below where "below = (if subid c = s then rest else c # rest)"
  have res: "set_system_time v s stk = Some (new # below)"
    by (cases v)
       (auto simp: set_system_time_def get_current_temporal_context_def push_temporal_context_def
          copy_temporal_context_def stk new_def below_def Let_def)
  have bl: "\<forall>d \<in> set below. subid d < s"
    using top(2) cs by (auto simp: below_def)
  have bsub: "set below \<subseteq> set (c # rest)" by (auto simp: below_def)
  have bsorted: "sorted_wrt (>) (map subid below)"
    using sorted by (auto simp: below_def)
  have broot: "0 \<in> subid ` set below"
    using root s0 by (auto simp: below_def)
  have btags: "fst ` set log \<subseteq> insert s (subid ` set below)"
    using tags by (auto simp: below_def)
  have "stack_inv (s # act) (new # below) ((s, v) # log)"
    unfolding stack_inv_def
  proof (intro conjI)
    show "sorted_wrt (>) (s # act)" "0 \<notin> set (s # act)" by (rule act)+
    show "sorted_wrt (>) (map subid (new # below))" using bsorted bl new by auto
    show "0 \<in> subid ` set (new # below)" using broot by auto
    show "subid ` set (new # below) \<subseteq> insert 0 (set (s # act))"
      using sub bsub new by auto
    show "fst ` set ((s, v) # log) \<subseteq> subid ` set (new # below)"
      using btags new by auto
    show "sorted_wrt (\<ge>) (map fst ((s, v) # log))"
      using lsorted top(1) cs by auto
    show "\<forall>d \<in> set (new # below). context_view d
            = spec_visible (filter (\<lambda>e. fst e \<le> subid d) ((s, v) # log))"
    proof
      fix d assume "d \<in> set (new # below)"
      then consider "d = new" | "d \<in> set below" by auto
      then show "context_view d = spec_visible (filter (\<lambda>e. fst e \<le> subid d) ((s, v) # log))"
      proof cases
        case 1
        then show ?thesis using new by simp
      next
        case 2
        with bl have "\<not> s \<le> subid d" by (simp add: not_le)
        moreover from 2 bsub views have
          "context_view d = spec_visible (filter (\<lambda>e. fst e \<le> subid d) log)" by auto
        ultimately show ?thesis by simp
      qed
    qed
  qed
  with res show ?thesis by simp
qed


lemma stack_inv_untouched:
  assumes inv: "stack_inv (s # act) (c # rest) log" and top: "subid c \<noteq> s"
  shows "stack_inv act (c # rest) log" and "s \<notin> fst ` set log"
proof -
  note tp = stack_inv_top [OF inv]
  from inv have act: "sorted_wrt (>) (s # act)" "0 \<notin> set (s # act)"
    and sorted: "sorted_wrt (>) (map subid (c # rest))"
    and root: "0 \<in> subid ` set (c # rest)"
    and sub: "subid ` set (c # rest) \<subseteq> insert 0 (set (s # act))"
    and tags: "fst ` set log \<subseteq> subid ` set (c # rest)"
    and lsorted: "sorted_wrt (\<ge>) (map fst log)"
    and views: "\<forall>d \<in> set (c # rest). context_view d = spec_visible (filter (\<lambda>e. fst e \<le> subid d) log)"
    by (simp_all add: stack_inv_def)
  from sub top have "subid c = 0 \<or> subid c \<in> set act" by auto
  with act have cs: "subid c < s" by (auto simp: word_neq_0_conv [symmetric])
  with tp(2) have nos: "s \<notin> subid ` set (c # rest)" by auto
  with tags show "s \<notin> fst ` set log" by blast
  from nos sub have sub': "subid ` set (c # rest) \<subseteq> insert 0 (set act)" by auto
  show "stack_inv act (c # rest) log"
    unfolding stack_inv_def
  proof (intro conjI)
    show "sorted_wrt (>) act" "0 \<notin> set act" using act by simp_all
  qed (rule sorted root sub' tags lsorted views)+
qed

lemma stack_inv_pop:
  assumes inv: "stack_inv (s # act) (c # rest) log" and top: "subid c = s"
  shows "stack_inv act rest (filter (\<lambda>e. fst e \<noteq> s) log)"
proof -
  note tp = stack_inv_top [OF inv]
  from inv have act: "sorted_wrt (>) (s # act)" "0 \<notin> set (s # act)"
    and sorted: "sorted_wrt (>) (map subid (c # rest))"
    and root: "0 \<in> subid ` set (c # rest)"
    and sub: "subid ` set (c # rest) \<subseteq> insert 0 (set (s # act))"
    and tags: "fst ` set log \<subseteq> subid ` set (c # rest)"
    and lsorted: "sorted_wrt (\<ge>) (map fst log)"
    and views: "\<forall>d \<in> set (c # rest). context_view d = spec_visible (filter (\<lambda>e. fst e \<le> subid d) log)"
    by (simp_all add: stack_inv_def)
  from tp(2) top have below: "\<forall>d \<in> set rest. subid d < s" by simp
  have restsub: "subid ` set rest \<subseteq> insert 0 (set act)"
  proof
    fix k assume "k \<in> subid ` set rest"
    then obtain d where d: "d \<in> set rest" "k = subid d" by blast
    from d(1) sub have "subid d \<in> insert 0 (set (s # act))" by auto
    moreover from d(1) below have "subid d \<noteq> s" by auto
    ultimately show "k \<in> insert 0 (set act)" using d(2) by simp
  qed
  show ?thesis
    unfolding stack_inv_def
  proof (intro conjI)
    show "sorted_wrt (>) act" "0 \<notin> set act" using act by simp_all
    show "sorted_wrt (>) (map subid rest)" using sorted by simp
    show "0 \<in> subid ` set rest" using root top act by auto
    show "subid ` set rest \<subseteq> insert 0 (set act)" by (rule restsub)
    show "fst ` set (filter (\<lambda>e. fst e \<noteq> s) log) \<subseteq> subid ` set rest"
      using tags top by auto
    show "sorted_wrt (\<ge>) (map fst (filter (\<lambda>e. fst e \<noteq> s) log))"
      using lsorted by (rule sorted_filter_level)
    show "\<forall>d \<in> set rest. context_view d
            = spec_visible (filter (\<lambda>e. fst e \<le> subid d) (filter (\<lambda>e. fst e \<noteq> s) log))"
    proof
      fix d assume d: "d \<in> set rest"
      with below have "subid d < s" by simp
      then have "filter (\<lambda>e. fst e \<le> subid d) (filter (\<lambda>e. fst e \<noteq> s) log)
                   = filter (\<lambda>e. fst e \<le> subid d) log"
        by (rule filter_below_filter_level)
      with views d show "context_view d
            = spec_visible (filter (\<lambda>e. fst e \<le> subid d) (filter (\<lambda>e. fst e \<noteq> s) log))"
        by simp
    qed
  qed
qed

lemma stack_inv_merge:
  assumes inv: "stack_inv (s # act) (c # rest) log" and top: "subid c = s"
    and p: "p \<in> insert 0 (set act)" "\<forall>a \<in> set act. a \<le> p"
  shows "\<exists>parent rest'. rest = parent # rest' \<and>
           stack_inv act (c\<lparr>subid := p\<rparr> # (if subid parent = p then rest' else rest))
             (map (relabel_level s p) log)"
proof -
  note tp = stack_inv_top [OF inv]
  from inv have act: "sorted_wrt (>) (s # act)" "0 \<notin> set (s # act)"
    and sorted: "sorted_wrt (>) (map subid (c # rest))"
    and root: "0 \<in> subid ` set (c # rest)"
    and sub: "subid ` set (c # rest) \<subseteq> insert 0 (set (s # act))"
    and tags: "fst ` set log \<subseteq> subid ` set (c # rest)"
    and lsorted: "sorted_wrt (\<ge>) (map fst log)"
    and views: "\<forall>d \<in> set (c # rest). context_view d = spec_visible (filter (\<lambda>e. fst e \<le> subid d) log)"
    by (simp_all add: stack_inv_def)
  from act have s0: "0 < s" by (simp add: word_neq_0_conv [symmetric])
  from p act s0 have ps: "p < s" by auto
  from tp(2) top have below: "\<forall>d \<in> set rest. subid d < s" by simp
  have restsub: "subid ` set rest \<subseteq> insert 0 (set act)"
  proof
    fix k assume "k \<in> subid ` set rest"
    then obtain d where d: "d \<in> set rest" "k = subid d" by blast
    from d(1) sub have "subid d \<in> insert 0 (set (s # act))" by auto
    moreover from d(1) below have "subid d \<noteq> s" by auto
    ultimately show "k \<in> insert 0 (set act)" using d(2) by simp
  qed
  from root top s0 have root': "0 \<in> subid ` set rest" by auto
  then obtain parent rest' where rest: "rest = parent # rest'" by (cases rest) auto
  have restp: "\<forall>d \<in> set rest. subid d \<le> p"
  proof
    fix d assume d: "d \<in> set rest"
    with restsub have "subid d = 0 \<or> subid d \<in> set act" by auto
    with p(2) show "subid d \<le> p" by auto
  qed
  define bl where "bl = (if subid parent = p then rest' else rest)"
  have blsub: "set bl \<subseteq> set rest" by (auto simp: bl_def rest)
  have blp: "\<forall>d \<in> set bl. subid d < p"
  proof (cases "subid parent = p")
    case True
    with sorted show ?thesis by (auto simp: bl_def rest)
  next
    case False
    with restp have "subid parent < p" by (simp add: rest order.strict_iff_order)
    with sorted show ?thesis by (auto simp: bl_def rest)
  qed
  have blsorted: "sorted_wrt (>) (map subid bl)"
    using sorted by (auto simp: bl_def rest)
  have restbl: "subid ` set rest \<subseteq> insert p (subid ` set bl)"
    by (auto simp: bl_def rest)
  have logp: "\<forall>e \<in> set log. fst e = s \<or> fst e \<le> p"
  proof
    fix e assume "e \<in> set log"
    with tags have "fst e \<in> subid ` set (c # rest)" by blast
    with top restp show "fst e = s \<or> fst e \<le> p" by auto
  qed
  have logs: "\<forall>e \<in> set log. fst e \<le> s" using tp(1) top by simp
  have allp: "\<forall>e \<in> set (map (relabel_level s p) log). fst e \<le> p"
    using logp by (auto simp: relabel_level_def)
  have "stack_inv act (c\<lparr>subid := p\<rparr> # bl) (map (relabel_level s p) log)"
    unfolding stack_inv_def
  proof (intro conjI)
    show "sorted_wrt (>) act" "0 \<notin> set act" using act by simp_all
    show "sorted_wrt (>) (map subid (c\<lparr>subid := p\<rparr> # bl))"
      using blsorted blp by auto
    show "0 \<in> subid ` set (c\<lparr>subid := p\<rparr> # bl)"
      using root' restbl by auto
    show "subid ` set (c\<lparr>subid := p\<rparr> # bl) \<subseteq> insert 0 (set act)"
      using p(1) blsub restsub by auto
    show "fst ` set (map (relabel_level s p) log) \<subseteq> subid ` set (c\<lparr>subid := p\<rparr> # bl)"
    proof -
      have "fst ` set (map (relabel_level s p) log) \<subseteq> insert p (fst ` set log - {s})"
        by (rule image_fst_relabel)
      also have "\<dots> \<subseteq> insert p (subid ` set rest)" using tags top by auto
      also have "\<dots> \<subseteq> insert p (subid ` set bl)" using restbl by auto
      finally show ?thesis by simp
    qed
    show "sorted_wrt (\<ge>) (map fst (map (relabel_level s p) log))"
      using lsorted logp logs by (rule sorted_relabel)
    show "\<forall>d \<in> set (c\<lparr>subid := p\<rparr> # bl). context_view d
            = spec_visible (filter (\<lambda>e. fst e \<le> subid d) (map (relabel_level s p) log))"
    proof
      fix d assume "d \<in> set (c\<lparr>subid := p\<rparr> # bl)"
      then consider "d = c\<lparr>subid := p\<rparr>" | "d \<in> set bl" by auto
      then show "context_view d
            = spec_visible (filter (\<lambda>e. fst e \<le> subid d) (map (relabel_level s p) log))"
      proof cases
        case 1
        have "filter (\<lambda>e. fst e \<le> p) (map (relabel_level s p) log) = map (relabel_level s p) log"
          using allp by (rule filter_all_below)
        with 1 tp(3) show ?thesis by simp
      next
        case 2
        with blp ps have "subid d < s" "subid d < p" by auto
        then have "filter (\<lambda>e. fst e \<le> subid d) (map (relabel_level s p) log)
                     = filter (\<lambda>e. fst e \<le> subid d) log"
          by (rule filter_below_relabel)
        moreover from 2 blsub views have
          "context_view d = spec_visible (filter (\<lambda>e. fst e \<le> subid d) log)" by auto
        ultimately show ?thesis by simp
      qed
    qed
  qed
  with rest show ?thesis by (simp add: bl_def)
qed


lemma stack_nonroot_tail:
  assumes "stack_inv active (c # rest) log" "subid c \<noteq> 0"
  shows "rest \<noteq> []"
proof -
  from assms(1) have "0 \<in> subid ` set (c # rest)" by (simp add: stack_inv_def)
  with assms(2) show ?thesis by auto
qed

lemma stack_inv_level:
  assumes "stack_inv active (c # rest) log"
  shows "subid c \<in> insert 0 (set active)"
  using assms by (simp add: stack_inv_def)

lemma stack_inv_active:
  assumes "stack_inv (s # act) stk log"
  shows "s \<noteq> 0" and "\<forall>a \<in> set act. a < s"
  using assms by (auto simp: stack_inv_def)

lemma set_system_time_Cons:
  "set_system_time v s (c # rest) =
     Some ((case v of
              None \<Rightarrow> c\<lparr>subid := s, system_time_mode := CurrentTransactionStartTimestamp\<rparr>
            | Some ts \<Rightarrow> c\<lparr>subid := s, system_time_mode := UserDefined, system_time := ts\<rparr>)
           # (if subid c = s then rest else c # rest))"
  by (cases v)
     (auto simp: set_system_time_def get_current_temporal_context_def push_temporal_context_def
        copy_temporal_context_def Let_def)

lemma word_less_succ:
  fixes c :: SubTransactionId
  shows "c + 1 \<noteq> 0 \<Longrightarrow> c < c + 1"
  by (metis add.commute add.right_inverse inc_less_eq_self_iff_eq verit_comp_simplify1(3))

lemma step_inv:
  assumes inv: "state_inv (h, stk, log)" and host: "host_step ev h = Some h'"
  shows "\<exists>stk'. code_step ev h stk = Some stk' \<and> state_inv (h', stk', spec_step ev h log) \<and>
           (ev \<noteq> CommitTransaction \<longrightarrow> last stk' = last stk)"
proof -
  from inv have sinv: "stack_inv (active_levels h) stk log"
    and cnt: "\<forall>a \<in> set (active_levels h). a \<le> currentSubTransactionId h"
    by (simp_all add: state_inv_def)
  from stack_inv_nonempty [OF sinv] obtain c rest where stk: "stk = c # rest"
    by (cases stk) auto
  show ?thesis
  proof (cases ev)
    case BeginTransaction
    with host have act: "active_levels h = []"
      and h': "h' = \<lparr>active_levels = [TopSubTransactionId], currentSubTransactionId = TopSubTransactionId\<rparr>"
      by (auto split: if_splits)
    from sinv act have "stack_inv [TopSubTransactionId] stk log"
      by (auto simp: stack_inv_def TopSubTransactionId_def)
    with BeginTransaction h' show ?thesis by (simp add: state_inv_def)
  next
    case BeginSubTransaction
    let ?n = "currentSubTransactionId h + 1"
    from BeginSubTransaction host have act: "active_levels h \<noteq> []" and n0: "?n \<noteq> 0"
      and h': "h' = \<lparr>active_levels = ?n # active_levels h, currentSubTransactionId = ?n\<rparr>"
      by (auto simp: InvalidSubTransactionId_def split: if_splits)
    from n0 have less: "currentSubTransactionId h < ?n" by (rule word_less_succ)
    with cnt have below: "\<forall>a \<in> set (active_levels h). a < ?n" by auto
    with sinv n0 have "stack_inv (?n # active_levels h) stk log"
      by (auto simp: stack_inv_def)
    moreover from below have "\<forall>a \<in> set (?n # active_levels h). a \<le> ?n" by auto
    ultimately show ?thesis using BeginSubTransaction h'
      by (simp add: state_inv_def temporal_tables_subxact_callback_def)
  next
    case (SetSystemTime v)
    with host obtain s act where act: "active_levels h = s # act" and h': "h' = h"
      by (cases "active_levels h") (auto split: if_splits)
    from stack_inv_set_system_time [OF sinv [unfolded act], of v]
    obtain stk' where res: "set_system_time v s stk = Some stk'"
      and inv': "stack_inv (s # act) stk' ((s, v) # log)" by blast
    have "last stk' = last stk"
    proof (cases "subid c = s")
      case True
      with stack_inv_active(1) [OF sinv [unfolded act]] have "subid c \<noteq> 0" by simp
      from stack_nonroot_tail [OF sinv [unfolded stk] this] True res show ?thesis
        by (auto simp: stk set_system_time_Cons)
    next
      case False
      with res show ?thesis by (auto simp: stk set_system_time_Cons)
    qed
    with res inv' cnt SetSystemTime act h' show ?thesis by (simp add: state_inv_def)
  next
    case AbortSubTransaction
    with host obtain s p act where act: "active_levels h = s # p # act"
      and h': "h' = h\<lparr>active_levels := p # act\<rparr>"
      by (auto split: list.splits)
    note sinv' = sinv [unfolded act stk]
    show ?thesis
    proof (cases "subid c = s")
      case True
      with stack_inv_active(1) [OF sinv'] have c0: "subid c \<noteq> 0" by simp
      from stack_inv_pop [OF sinv' True] stack_nonroot_tail [OF sinv' c0] cnt True
      show ?thesis
        by (simp add: AbortSubTransaction act h' stk state_inv_def temporal_tables_subxact_callback_def)
    next
      case False
      from stack_inv_untouched [OF sinv' False] cnt False
      show ?thesis
        by (simp add: AbortSubTransaction act h' stk state_inv_def
              temporal_tables_subxact_callback_def no_level_filter)
    qed
  next
    case AbortTransaction
    with host obtain s where act: "active_levels h = [s]"
      and h': "h' = h\<lparr>active_levels := []\<rparr>"
      by (auto split: list.splits)
    note sinv' = sinv [unfolded act stk]
    from stack_inv_level [OF sinv'] have lev: "subid c = 0 \<or> subid c = s" by auto
    show ?thesis
    proof (cases "subid c = s")
      case True
      with stack_inv_active(1) [OF sinv'] have c0: "subid c \<noteq> 0" by simp
      from stack_inv_pop [OF sinv' True] stack_nonroot_tail [OF sinv' c0] c0
      show ?thesis
        by (simp add: AbortTransaction act h' stk state_inv_def temporal_tables_xact_callback_def
              InvalidSubTransactionId_def)
    next
      case False
      with lev have c0: "subid c = 0" by simp
      from stack_inv_untouched [OF sinv' False] c0
      show ?thesis
        by (simp add: AbortTransaction act h' stk state_inv_def temporal_tables_xact_callback_def
              InvalidSubTransactionId_def no_level_filter)
    qed
  next
    case CommitSubTransaction
    with host obtain s p act where act: "active_levels h = s # p # act"
      and h': "h' = h\<lparr>active_levels := p # act\<rparr>"
      by (auto split: list.splits)
    note sinv' = sinv [unfolded act stk]
    from sinv' have p0: "p \<noteq> 0" and pmax: "\<forall>a \<in> set (p # act). a \<le> p"
      by (auto simp: stack_inv_def)
    show ?thesis
    proof (cases "subid c = s")
      case True
      have "p \<in> insert 0 (set (p # act))" by simp
      from stack_inv_merge [OF sinv' True this pmax]
      obtain parent rest' where rest: "rest = parent # rest'"
        and inv': "stack_inv (p # act) (c\<lparr>subid := p\<rparr> # (if subid parent = p then rest' else rest))
                     (map (relabel_level s p) log)" by blast
      define bl where "bl = (if subid parent = p then rest' else rest)"
      note inv'' = inv' [folded bl_def]
      have "subid (c\<lparr>subid := p\<rparr>) \<noteq> 0" using p0 by simp
      from stack_nonroot_tail [OF inv'' this] have ne: "bl \<noteq> []" .
      have code: "code_step ev h stk = Some (c\<lparr>subid := p\<rparr> # bl)"
        using True
        by (simp add: CommitSubTransaction act stk rest bl_def
              temporal_tables_subxact_callback_def copy_temporal_context_def)
      have lst: "last (c\<lparr>subid := p\<rparr> # bl) = last stk"
        using ne by (cases "subid parent = p") (simp_all add: bl_def rest stk)
      have spec: "spec_step ev h log = map (relabel_level s p) log"
        by (simp add: CommitSubTransaction act)
      from cnt have "\<forall>a \<in> set (p # act). a \<le> currentSubTransactionId h"
        by (simp add: act)
      with inv'' have "state_inv (h', c\<lparr>subid := p\<rparr> # bl, spec_step ev h log)"
        by (simp add: state_inv_def h' spec)
      with code lst show ?thesis by simp
    next
      case False
      from stack_inv_untouched [OF sinv' False] cnt False
      show ?thesis
        by (simp add: CommitSubTransaction act h' stk state_inv_def
              temporal_tables_subxact_callback_def no_level_relabel)
    qed
  next
    case CommitTransaction
    with host obtain s where act: "active_levels h = [s]"
      and h': "h' = h\<lparr>active_levels := []\<rparr>"
      by (auto split: list.splits)
    note sinv' = sinv [unfolded act stk]
    from stack_inv_level [OF sinv'] have lev: "subid c = 0 \<or> subid c = s" by auto
    show ?thesis
    proof (cases "subid c = s")
      case True
      with stack_inv_active(1) [OF sinv'] have c0: "subid c \<noteq> 0" by simp
      have "(0::SubTransactionId) \<in> insert 0 (set [])" "\<forall>a \<in> set []. a \<le> (0::SubTransactionId)"
        by simp_all
      from stack_inv_merge [OF sinv' True this]
      obtain parent rest' where rest: "rest = parent # rest'"
        and inv': "stack_inv [] (c\<lparr>subid := 0\<rparr> # (if subid parent = 0 then rest' else rest))
                     (map (relabel_level s 0) log)" by blast
      from stack_inv_top(2) [OF sinv'] True have "subid parent < s" by (simp add: rest)
      moreover from sinv' have "subid parent \<in> insert 0 (set [s])"
        by (simp add: stack_inv_def rest)
      ultimately have par: "subid parent = 0" by auto
      with inv' c0 show ?thesis
        by (simp add: CommitTransaction act h' stk rest state_inv_def
              temporal_tables_xact_callback_def copy_temporal_context_def
              InvalidSubTransactionId_def)
    next
      case False
      with lev have c0: "subid c = 0" by simp
      from stack_inv_untouched [OF sinv' False] c0
      show ?thesis
        by (simp add: CommitTransaction act h' stk state_inv_def temporal_tables_xact_callback_def
              InvalidSubTransactionId_def no_level_relabel)
    qed
  qed
qed


lemma state_inv_initial: "state_inv (initial_xact_state, PG_init, [])"
  by (simp add: state_inv_def stack_inv_def initial_xact_state_def PG_init_def
        InvalidSubTransactionId_def context_view_def spec_visible_def)

lemma run_Cons_Some:
  assumes "host_step ev h = Some h1" "code_step ev h stk = Some stk1"
  shows "run (ev # evs) (h, stk, log) = run evs (h1, stk1, spec_step ev h log)"
  using assms by simp

lemma run_Cons_Running:
  assumes "run (ev # evs) (h, stk, log) = Running st" "state_inv (h, stk, log)"
  obtains h1 stk1 where "host_step ev h = Some h1" "code_step ev h stk = Some stk1"
    "state_inv (h1, stk1, spec_step ev h log)" "ev \<noteq> CommitTransaction \<longrightarrow> last stk1 = last stk"
    "run evs (h1, stk1, spec_step ev h log) = Running st"
proof (cases "host_step ev h")
  case None
  with assms(1) show ?thesis by simp
next
  case (Some h1)
  from step_inv [OF assms(2) Some] obtain stk1 where
    1: "code_step ev h stk = Some stk1" "state_inv (h1, stk1, spec_step ev h log)"
       "ev \<noteq> CommitTransaction \<longrightarrow> last stk1 = last stk" by blast
  from assms(1) have "run evs (h1, stk1, spec_step ev h log) = Running st"
    by (simp only: run_Cons_Some [OF Some 1(1)])
  with Some 1 that show ?thesis by blast
qed

lemma run_not_Crashed:
  "state_inv (h, stk, log) \<Longrightarrow> run evs (h, stk, log) \<noteq> Crashed"
proof (induction evs arbitrary: h stk log)
  case Nil
  then show ?case by simp
next
  case (Cons ev evs)
  show ?case
  proof (cases "host_step ev h")
    case None
    then show ?thesis by simp
  next
    case (Some h1)
    from step_inv [OF Cons.prems Some] obtain stk1 where
      1: "code_step ev h stk = Some stk1" "state_inv (h1, stk1, spec_step ev h log)" by blast
    from Cons.IH [OF 1(2)] show ?thesis unfolding run_Cons_Some [OF Some 1(1)] .
  qed
qed

lemma run_state_inv:
  "state_inv (h, stk, log) \<Longrightarrow> run evs (h, stk, log) = Running st \<Longrightarrow> state_inv st"
proof (induction evs arbitrary: h stk log)
  case Nil
  then show ?case by simp
next
  case (Cons ev evs)
  from Cons.prems(2,1) obtain h1 stk1 where
    "state_inv (h1, stk1, spec_step ev h log)"
    "run evs (h1, stk1, spec_step ev h log) = Running st"
    by (rule run_Cons_Running)
  then show ?case by (rule Cons.IH)
qed

lemma run_root_unmodified:
  "state_inv (h, stk, log) \<Longrightarrow> run evs (h, stk, log) = Running (h', stk', log') \<Longrightarrow>
   CommitTransaction \<notin> set evs \<Longrightarrow> last stk' = last stk"
proof (induction evs arbitrary: h stk log)
  case Nil
  then show ?case by simp
next
  case (Cons ev evs)
  from Cons.prems(2,1) obtain h1 stk1 where
    1: "state_inv (h1, stk1, spec_step ev h log)"
       "ev \<noteq> CommitTransaction \<longrightarrow> last stk1 = last stk"
       "run evs (h1, stk1, spec_step ev h log) = Running (h', stk', log')"
    by (rule run_Cons_Running)
  from Cons.prems(3) have 2: "ev \<noteq> CommitTransaction" "CommitTransaction \<notin> set evs" by auto
  from Cons.IH [OF 1(1) 1(3) 2(2)] 1(2) 2(1) show ?case by simp
qed

lemma stack_root_last:
  assumes "stack_inv active (c # rest) log" "subid c = 0"
  shows "rest = []"
proof (cases rest)
  case Nil
  then show ?thesis .
next
  case (Cons d rest')
  from stack_inv_top(2) [OF assms(1)] Cons have "subid d < subid c" by simp
  with assms(2) show ?thesis by simp
qed

lemma stack_top_level:
  assumes "stack_inv [s] (c # rest) log"
  shows "subid c = s \<and> subid c \<noteq> 0 \<and> (\<exists>root. rest = [root] \<and> subid root = 0)
         \<or> subid c = 0 \<and> subid c \<noteq> s \<and> rest = []"
proof (cases "subid c = s")
  case True
  from stack_inv_active(1) [OF assms] True have c0: "subid c \<noteq> 0" by simp
  from stack_nonroot_tail [OF assms c0] obtain root rest' where rest: "rest = root # rest'"
    by (cases rest) auto
  from stack_inv_pop [OF assms True] have inv': "stack_inv [] (root # rest') (filter (\<lambda>e. fst e \<noteq> s) log)"
    by (simp add: rest)
  from stack_inv_level [OF inv'] have r0: "subid root = 0" by simp
  from stack_root_last [OF inv' r0] True c0 r0 rest show ?thesis by simp
next
  case False
  with stack_inv_level [OF assms] have c0: "subid c = 0" by auto
  from stack_root_last [OF assms c0] c0 False show ?thesis by simp
qed

lemma outer_commit:
  assumes inv: "state_inv (h, stk, log)" and host: "host_step CommitTransaction h \<noteq> None"
  shows "code_step CommitTransaction h stk = Some [hd stk\<lparr>subid := InvalidSubTransactionId\<rparr>]"
proof -
  from host obtain s where act: "active_levels h = [s]" by (auto split: list.splits)
  from inv have sinv: "stack_inv [s] stk log" by (simp add: state_inv_def act)
  from stack_inv_nonempty [OF sinv] obtain c rest where stk: "stk = c # rest"
    by (cases stk) auto
  from stack_top_level [OF sinv [unfolded stk]] show ?thesis
    by (auto simp: stk temporal_tables_xact_callback_def copy_temporal_context_def
          InvalidSubTransactionId_def)
qed

lemma outer_abort:
  assumes inv: "state_inv (h, stk, log)" and host: "host_step AbortTransaction h \<noteq> None"
  shows "code_step AbortTransaction h stk = Some [last stk]"
    and "subid (last stk) = InvalidSubTransactionId"
proof -
  from host obtain s where act: "active_levels h = [s]" by (auto split: list.splits)
  from inv have sinv: "stack_inv [s] stk log" by (simp add: state_inv_def act)
  from stack_inv_nonempty [OF sinv] obtain c rest where stk: "stk = c # rest"
    by (cases stk) auto
  from stack_top_level [OF sinv [unfolded stk]]
  show "code_step AbortTransaction h stk = Some [last stk]"
    by (auto simp: stk temporal_tables_xact_callback_def InvalidSubTransactionId_def)
  from stack_top_level [OF sinv [unfolded stk]]
  show "subid (last stk) = InvalidSubTransactionId"
    by (auto simp: stk InvalidSubTransactionId_def)
qed

lemma sub_commit:
  assumes inv: "state_inv (h, stk, log)" and host: "host_step CommitSubTransaction h \<noteq> None"
  shows "code_step CommitSubTransaction h stk =
           Some (if subid (hd stk) = hd (active_levels h)
                 then hd stk\<lparr>subid := hd (tl (active_levels h))\<rparr> #
                      (if subid (hd (tl stk)) = hd (tl (active_levels h)) then tl (tl stk) else tl stk)
                 else stk)"
proof -
  from host obtain h' where h': "host_step CommitSubTransaction h = Some h'" by auto
  from step_inv [OF inv h'] obtain stk' where
    res: "code_step CommitSubTransaction h stk = Some stk'" by blast
  from stack_inv_nonempty inv obtain c rest where stk: "stk = c # rest"
    by (cases stk) (auto simp: state_inv_def)
  from res show ?thesis
    by (cases rest)
       (simp_all add: stk temporal_tables_subxact_callback_def copy_temporal_context_def
          split: if_splits)
qed

lemma sub_abort:
  assumes inv: "state_inv (h, stk, log)" and host: "host_step AbortSubTransaction h \<noteq> None"
  shows "code_step AbortSubTransaction h stk =
           Some (if subid (hd stk) = hd (active_levels h) then tl stk else stk)"
    and "hd (active_levels h) \<notin>
           subid ` set (if subid (hd stk) = hd (active_levels h) then tl stk else stk)"
proof -
  from host obtain s p act where act: "active_levels h = s # p # act"
    and h': "host_step AbortSubTransaction h = Some (h\<lparr>active_levels := p # act\<rparr>)"
    by (auto split: list.splits)
  from stack_inv_nonempty inv obtain c rest where stk: "stk = c # rest"
    by (cases stk) (auto simp: state_inv_def)
  show code: "code_step AbortSubTransaction h stk =
           Some (if subid (hd stk) = hd (active_levels h) then tl stk else stk)"
    by (simp add: stk temporal_tables_subxact_callback_def)
  from step_inv [OF inv h'] code
  have "stack_inv (p # act) (if subid (hd stk) = hd (active_levels h) then tl stk else stk)
          (spec_step AbortSubTransaction h log)"
    by (auto simp: state_inv_def)
  then have sub: "subid ` set (if subid (hd stk) = hd (active_levels h) then tl stk else stk)
                    \<subseteq> insert 0 (set (p # act))"
    by (simp add: stack_inv_def)
  from inv have sinv: "stack_inv (s # p # act) stk log" by (simp add: state_inv_def act)
  from stack_inv_active [OF sinv] have "s \<notin> insert 0 (set (p # act))" by auto
  with sub show "hd (active_levels h) \<notin>
           subid ` set (if subid (hd stk) = hd (active_levels h) then tl stk else stk)"
    unfolding act by (simp only: list.sel) blast
qed

lemma reader_view:
  assumes inv: "state_inv (h, stk, log)"
  shows "\<exists>ctx. get_current_temporal_context False cur stk = Some (ctx, stk) \<and>
           context_view ctx = spec_visible log"
    and "get_system_time start cur stk =
           Some (case spec_visible log of None \<Rightarrow> start | Some ts \<Rightarrow> ts)"
proof -
  from inv have sinv: "stack_inv (active_levels h) stk log" by (simp add: state_inv_def)
  from stack_inv_reader [OF sinv, of cur]
  show 1: "\<exists>ctx. get_current_temporal_context False cur stk = Some (ctx, stk) \<and>
           context_view ctx = spec_visible log" .
  then obtain ctx where "get_current_temporal_context False cur stk = Some (ctx, stk)"
    "spec_visible log = context_view ctx" by auto
  then show "get_system_time start cur stk =
           Some (case spec_visible log of None \<Rightarrow> start | Some ts \<Rightarrow> ts)"
    by (auto simp: get_system_time_def context_view_def split: SystemTimeMode.splits)
qed


text \<open>
  Claim C3. Take any sequence of transaction and subtransaction begins, commits and
  aborts and of sets of the system time, from the state in which the library is
  loaded, that the transaction manager accepts. The library never dereferences a null
  pointer nor fails its assertion on the way. In the state reached, the context handed
  to a read-only caller says what the most recent set of the log says, that is the
  most recent set made in the current level, in an ancestor level or in a level
  committed into one of them, no level of which was aborted; \<^verbatim>\<open>get_system_time\<close>
  returns its time, or the transaction start time when there is no such set or the
  set asked for it. In particular, from such a state: on the commit of the outer
  transaction the stack becomes the root alone, holding the contents of the former
  top; on its abort the stack becomes the root alone, and the root is the one that was
  there since no event but an outer commit changes it; on the commit of a
  subtransaction that holds the top context, this context gets the parent's level,
  in place (relabel) or in the place of the parent's own context (copy), and
  otherwise the stack stays; on the abort of a subtransaction its context is dropped
  if it has one, and no context of its level remains.
\<close>

theorem C3_context_refinement:
  "run evs (initial_xact_state, PG_init, []) \<noteq> Crashed \<and>
   (\<forall>h stk log. run evs (initial_xact_state, PG_init, []) = Running (h, stk, log) \<longrightarrow>
      (\<exists>ctx. get_current_temporal_context False cur stk = Some (ctx, stk) \<and>
             context_view ctx = spec_visible log) \<and>
      get_system_time start cur stk =
        Some (case spec_visible log of None \<Rightarrow> start | Some ts \<Rightarrow> ts) \<and>
      (host_step CommitTransaction h \<noteq> None \<longrightarrow>
         code_step CommitTransaction h stk = Some [hd stk\<lparr>subid := InvalidSubTransactionId\<rparr>]) \<and>
      (host_step AbortTransaction h \<noteq> None \<longrightarrow>
         code_step AbortTransaction h stk = Some [last stk] \<and>
         subid (last stk) = InvalidSubTransactionId) \<and>
      (\<forall>evs' h' stk' log'.
         CommitTransaction \<notin> set evs' \<and> run evs' (h, stk, log) = Running (h', stk', log') \<longrightarrow>
         last stk' = last stk) \<and>
      (host_step CommitSubTransaction h \<noteq> None \<longrightarrow>
         code_step CommitSubTransaction h stk =
           Some (if subid (hd stk) = hd (active_levels h)
                 then hd stk\<lparr>subid := hd (tl (active_levels h))\<rparr> #
                      (if subid (hd (tl stk)) = hd (tl (active_levels h))
                       then tl (tl stk) else tl stk)
                 else stk)) \<and>
      (host_step AbortSubTransaction h \<noteq> None \<longrightarrow>
         code_step AbortSubTransaction h stk =
           Some (if subid (hd stk) = hd (active_levels h) then tl stk else stk) \<and>
         hd (active_levels h) \<notin>
           subid ` set (if subid (hd stk) = hd (active_levels h) then tl stk else stk)))"
proof (intro conjI allI impI)
  show "run evs (initial_xact_state, PG_init, []) \<noteq> Crashed"
    using state_inv_initial by (rule run_not_Crashed)
next
  fix h stk log
  assume "run evs (initial_xact_state, PG_init, []) = Running (h, stk, log)"
  with state_inv_initial have inv: "state_inv (h, stk, log)" by (rule run_state_inv)
  show "\<exists>ctx. get_current_temporal_context False cur stk = Some (ctx, stk) \<and>
             context_view ctx = spec_visible log"
    using inv by (rule reader_view(1))
  show "get_system_time start cur stk =
        Some (case spec_visible log of None \<Rightarrow> start | Some ts \<Rightarrow> ts)"
    using inv by (rule reader_view(2))
  {
    assume "host_step CommitTransaction h \<noteq> None"
    with inv show "code_step CommitTransaction h stk
                     = Some [hd stk\<lparr>subid := InvalidSubTransactionId\<rparr>]"
      by (rule outer_commit)
  }
  {
    assume host: "host_step AbortTransaction h \<noteq> None"
    from inv host show "code_step AbortTransaction h stk = Some [last stk]"
      by (rule outer_abort(1))
    from inv host show "subid (last stk) = InvalidSubTransactionId"
      by (rule outer_abort(2))
  }
  {
    fix evs' h' stk' log'
    assume "CommitTransaction \<notin> set evs' \<and> run evs' (h, stk, log) = Running (h', stk', log')"
    then have "run evs' (h, stk, log) = Running (h', stk', log')" "CommitTransaction \<notin> set evs'"
      by simp_all
    with inv show "last stk' = last stk" by (rule run_root_unmodified)
  }
  {
    assume "host_step CommitSubTransaction h \<noteq> None"
    with inv show "code_step CommitSubTransaction h stk =
           Some (if subid (hd stk) = hd (active_levels h)
                 then hd stk\<lparr>subid := hd (tl (active_levels h))\<rparr> #
                      (if subid (hd (tl stk)) = hd (tl (active_levels h))
                       then tl (tl stk) else tl stk)
                 else stk)"
      by (rule sub_commit)
  }
  {
    assume host: "host_step AbortSubTransaction h \<noteq> None"
    from inv host show "code_step AbortSubTransaction h stk =
           Some (if subid (hd stk) = hd (active_levels h) then tl stk else stk)"
      by (rule sub_abort(1))
    from inv host show "hd (active_levels h) \<notin>
           subid ` set (if subid (hd stk) = hd (active_levels h) then tl stk else stk)"
      by (rule sub_abort(2))
  }
qed

theorem C3_witness:
  "run [BeginTransaction, SetSystemTime (Some 5), BeginSubTransaction, SetSystemTime (Some 7)]
       (initial_xact_state, PG_init, [])
     = Running (\<lparr>active_levels = [2, 1], currentSubTransactionId = 2\<rparr>,
                [\<lparr>subid = 2, system_time_mode = UserDefined, system_time = 7\<rparr>,
                 \<lparr>subid = 1, system_time_mode = UserDefined, system_time = 5\<rparr>,
                 \<lparr>subid = 0, system_time_mode = CurrentTransactionStartTimestamp, system_time = 0\<rparr>],
                [(2, Some 7), (1, Some 5)])
   \<and> get_system_time 100 2
        [\<lparr>subid = 2, system_time_mode = UserDefined, system_time = 7\<rparr>,
         \<lparr>subid = 1, system_time_mode = UserDefined, system_time = 5\<rparr>,
         \<lparr>subid = 0, system_time_mode = CurrentTransactionStartTimestamp, system_time = 0\<rparr>]
       = Some 7
   \<and> code_step CommitSubTransaction \<lparr>active_levels = [2, 1], currentSubTransactionId = 2\<rparr>
        [\<lparr>subid = 2, system_time_mode = UserDefined, system_time = 7\<rparr>,
         \<lparr>subid = 1, system_time_mode = UserDefined, system_time = 5\<rparr>,
         \<lparr>subid = 0, system_time_mode = CurrentTransactionStartTimestamp, system_time = 0\<rparr>]
       = Some [\<lparr>subid = 1, system_time_mode = UserDefined, system_time = 7\<rparr>,
               \<lparr>subid = 0, system_time_mode = CurrentTransactionStartTimestamp, system_time = 0\<rparr>]
   \<and> code_step AbortSubTransaction \<lparr>active_levels = [2, 1], currentSubTransactionId = 2\<rparr>
        [\<lparr>subid = 2, system_time_mode = UserDefined, system_time = 7\<rparr>,
         \<lparr>subid = 1, system_time_mode = UserDefined, system_time = 5\<rparr>,
         \<lparr>subid = 0, system_time_mode = CurrentTransactionStartTimestamp, system_time = 0\<rparr>]
       = Some [\<lparr>subid = 1, system_time_mode = UserDefined, system_time = 5\<rparr>,
               \<lparr>subid = 0, system_time_mode = CurrentTransactionStartTimestamp, system_time = 0\<rparr>]
   \<and> run [BeginTransaction, SetSystemTime (Some 5)] (initial_xact_state, PG_init, [])
     = Running (\<lparr>active_levels = [1], currentSubTransactionId = 1\<rparr>,
                [\<lparr>subid = 1, system_time_mode = UserDefined, system_time = 5\<rparr>,
                 \<lparr>subid = 0, system_time_mode = CurrentTransactionStartTimestamp, system_time = 0\<rparr>],
                [(1, Some 5)])
   \<and> code_step CommitTransaction \<lparr>active_levels = [1], currentSubTransactionId = 1\<rparr>
        [\<lparr>subid = 1, system_time_mode = UserDefined, system_time = 5\<rparr>,
         \<lparr>subid = 0, system_time_mode = CurrentTransactionStartTimestamp, system_time = 0\<rparr>]
       = Some [\<lparr>subid = 0, system_time_mode = UserDefined, system_time = 5\<rparr>]
   \<and> code_step AbortTransaction \<lparr>active_levels = [1], currentSubTransactionId = 1\<rparr>
        [\<lparr>subid = 1, system_time_mode = UserDefined, system_time = 5\<rparr>,
         \<lparr>subid = 0, system_time_mode = CurrentTransactionStartTimestamp, system_time = 0\<rparr>]
       = Some [\<lparr>subid = 0, system_time_mode = CurrentTransactionStartTimestamp, system_time = 0\<rparr>]"
proof -
  let ?root = "\<lparr>subid = 0, system_time_mode = CurrentTransactionStartTimestamp, system_time = 0\<rparr>"
  let ?one = "\<lparr>subid = 1, system_time_mode = UserDefined, system_time = 5\<rparr>"
  let ?two = "\<lparr>subid = 2, system_time_mode = UserDefined, system_time = 7\<rparr>"
  let ?hA = "\<lparr>active_levels = [2, 1], currentSubTransactionId = 2\<rparr>"
  let ?hB = "\<lparr>active_levels = [1], currentSubTransactionId = 1\<rparr>"
  note defs = initial_xact_state_def PG_init_def InvalidSubTransactionId_def
    TopSubTransactionId_def set_system_time_def get_current_temporal_context_def
    push_temporal_context_def copy_temporal_context_def Let_def
    temporal_tables_subxact_callback_def
  have runA: "run [BeginTransaction, SetSystemTime (Some 5), BeginSubTransaction,
                   SetSystemTime (Some 7)] (initial_xact_state, PG_init, [])
                = Running (?hA, [?two, ?one, ?root], [(2, Some 7), (1, Some 5)])"
    by (simp add: defs)
  have runB: "run [BeginTransaction, SetSystemTime (Some 5)] (initial_xact_state, PG_init, [])
                = Running (?hB, [?one, ?root], [(1, Some 5)])"
    by (simp add: defs)
  note A = C3_context_refinement
    [of "[BeginTransaction, SetSystemTime (Some 5), BeginSubTransaction, SetSystemTime (Some 7)]"
        2 100, THEN conjunct2, rule_format, OF runA]
  note B = C3_context_refinement
    [of "[BeginTransaction, SetSystemTime (Some 5)]" 1 100, THEN conjunct2, rule_format, OF runB]
  have hostA: "host_step CommitSubTransaction ?hA \<noteq> None" "host_step AbortSubTransaction ?hA \<noteq> None"
    by simp_all
  have hostB: "host_step CommitTransaction ?hB \<noteq> None" "host_step AbortTransaction ?hB \<noteq> None"
    by simp_all
  from A have 1: "get_system_time 100 2 [?two, ?one, ?root] = Some 7"
    by (simp add: spec_visible_def)
  from A hostA(1) have 2: "code_step CommitSubTransaction ?hA [?two, ?one, ?root]
                            = Some [?one\<lparr>system_time := 7\<rparr>, ?root]"
    by simp
  from A hostA(2) have 3: "code_step AbortSubTransaction ?hA [?two, ?one, ?root] = Some [?one, ?root]"
    by simp
  from B hostB(1) have 4: "code_step CommitTransaction ?hB [?one, ?root] = Some [?one\<lparr>subid := 0\<rparr>]"
    by (simp add: InvalidSubTransactionId_def)
  from B hostB(2) have 5: "code_step AbortTransaction ?hB [?one, ?root] = Some [?root]"
    by simp
  from runA runB 1 2 3 4 5 show ?thesis by simp
qed

end
